theory Spec2Isabelle
  imports Main "HOL-Library.Sublist"
begin

section \<open>The spam-analysis endpoint \<^verbatim>\<open>pages/api/wayback/analyze-spam.js\<close>\<close>

text \<open>
  The file exports one asynchronous request handler. It reads \<^verbatim>\<open>req.method\<close> and
  \<^verbatim>\<open>req.body\<close>, keeps a module-level \<^verbatim>\<open>Map\<close> of domain statuses, collects
  a request-local array of log entries, delegates the analysis to
  \<^verbatim>\<open>waybackAdapter.analyzeDomainsForSpam\<close> and answers through
  \<^verbatim>\<open>res.status(..).json(..)\<close>.

  The adapter and the stop-word module are imported from files that are not part of the
  sources at hand; they are parameters of the model (record \<open>env\<close> below). Everything
  else is translated from the handler, line by line.
\<close>

subsection \<open>JavaScript values\<close>

text \<open>
  The values that travel through the handler are JSON-like: the parsed request body, the
  stop-word lists, the results of the analysis. Numbers are the integers (a fractional
  number, \<^verbatim>\<open>NaN\<close>, an infinity and \<^verbatim>\<open>-0\<close> are not represented; integers are
  meant to be of magnitude below \<open>10^21\<close>, where JavaScript prints them in plain decimal
  notation). Strings are ASCII; the two non-ASCII characters of the source's log messages
  are written as their UTF-8 bytes. An object is the list of its own properties (the first
  binding of a key is the one that counts).
\<close>

datatype jsval =
    JUndefined
  | JNull
  | JBool bool
  | JNum int
  | JStr string
  | JArr "jsval list"
  | JObj "(string \<times> jsval) list"

text \<open>Truthiness, as used by \<^verbatim>\<open>!x\<close>, \<^verbatim>\<open>if (x)\<close> and \<^verbatim>\<open>x || y\<close>.\<close>

fun truthy :: "jsval \<Rightarrow> bool" where
  "truthy JUndefined = False"
| "truthy JNull = False"
| "truthy (JBool b) = b"
| "truthy (JNum n) = (n \<noteq> 0)"
| "truthy (JStr s) = (s \<noteq> [])"
| "truthy (JArr xs) = True"
| "truthy (JObj fs) = True"

fun nullish :: "jsval \<Rightarrow> bool" where
  "nullish JUndefined = True"
| "nullish JNull = True"
| "nullish v = False"

text \<open>\<^verbatim>\<open>Array.isArray(x)\<close> and \<^verbatim>\<open>typeof x === 'string'\<close>.\<close>

fun isArray :: "jsval \<Rightarrow> bool" where
  "isArray (JArr xs) = True"
| "isArray v = False"

fun isString :: "jsval \<Rightarrow> bool" where
  "isString (JStr s) = True"
| "isString v = False"

text \<open>
  A property read \<^verbatim>\<open>v.k\<close> on a value that is neither \<^verbatim>\<open>undefined\<close> nor
  \<^verbatim>\<open>null\<close> (on those the read throws a TypeError, which every caller below checks
  first). The handler reads the names \<^verbatim>\<open>domains\<close>, \<^verbatim>\<open>stopWords\<close>,
  \<^verbatim>\<open>maxSnapshots\<close>, \<^verbatim>\<open>length\<close>, \<^verbatim>\<open>status\<close> and \<^verbatim>\<open>domain\<close>: none
  is an array index or a member of \<^verbatim>\<open>Object.prototype\<close>, so an array or a string
  answers \<^verbatim>\<open>length\<close> only and an object answers its own properties.
\<close>

fun getProp :: "jsval \<Rightarrow> string \<Rightarrow> jsval" where
  "getProp (JObj fs) k = (case map_of fs k of Some v \<Rightarrow> v | None \<Rightarrow> JUndefined)"
| "getProp (JArr xs) k = (if k = ''length'' then JNum (int (length xs)) else JUndefined)"
| "getProp (JStr s) k = (if k = ''length'' then JNum (int (length s)) else JUndefined)"
| "getProp v k = JUndefined"

subsection \<open>Conversion to a string in a template literal\<close>

fun show_nat :: "nat \<Rightarrow> string" where
  "show_nat n =
     (if n < 10 then [''0123456789'' ! n]
      else show_nat (n div 10) @ [''0123456789'' ! (n mod 10)])"

definition show_int :: "int \<Rightarrow> string" where
  "show_int i = (if i < 0 then CHR ''-'' # show_nat (nat (- i)) else show_nat (nat i))"

fun join :: "string \<Rightarrow> string list \<Rightarrow> string" where
  "join sep [] = []"
| "join sep [x] = x"
| "join sep (x # y # ys) = x @ sep @ join sep (y # ys)"

text \<open>
  \<^verbatim>\<open>`${v}`\<close> applies ToString. \<open>None\<close> stands for the TypeError "Cannot convert
  object to primitive value": an object parsed from JSON that has an own property
  \<^verbatim>\<open>toString\<close> shadows \<^verbatim>\<open>Object.prototype.toString\<close> with a value that is not
  callable, and \<^verbatim>\<open>Object.prototype.valueOf\<close> returns the object itself. An array is
  joined with commas, \<^verbatim>\<open>undefined\<close> and \<^verbatim>\<open>null\<close> elements printing as the empty
  string.
\<close>

fun ToString :: "jsval \<Rightarrow> string option" where
  "ToString JUndefined = Some ''undefined''"
| "ToString JNull = Some ''null''"
| "ToString (JBool b) = Some (if b then ''true'' else ''false'')"
| "ToString (JNum n) = Some (show_int n)"
| "ToString (JStr s) = Some s"
| "ToString (JArr xs) =
     map_option (join '','')
       (those (map (\<lambda>x. if nullish x then Some [] else ToString x) xs))"
| "ToString (JObj fs) =
     (if ''toString'' \<in> fst ` set fs then None else Some ''[object Object]'')"

text \<open>\<^verbatim>\<open>type.toUpperCase()\<close> on ASCII strings.\<close>

definition toUpperCase :: "string \<Rightarrow> string" where
  "toUpperCase s =
     map (\<lambda>c. if 97 \<le> (of_char c :: nat) \<and> (of_char c :: nat) \<le> 122
              then char_of ((of_char c :: nat) - 32) else c) s"

subsection \<open>Exceptions\<close>

text \<open>
  A thrown value is an \<^verbatim>\<open>Error\<close> instance: a name, a message and a stack, which may
  be missing. The catch blocks read \<^verbatim>\<open>error.message\<close>, test \<^verbatim>\<open>error.stack\<close> for
  truthiness and call \<^verbatim>\<open>error.toString()\<close>.
\<close>

record js_error =
  err_name :: string
  err_message :: string
  err_stack :: "string option"

definition stack_truthy :: "js_error \<Rightarrow> bool" where
  "stack_truthy e = (case err_stack e of None \<Rightarrow> False | Some s \<Rightarrow> s \<noteq> [])"

definition the_stack :: "js_error \<Rightarrow> string" where
  "the_stack e = (case err_stack e of None \<Rightarrow> [] | Some s \<Rightarrow> s)"

definition error_toString :: "js_error \<Rightarrow> string" where
  "error_toString e =
     (if err_name e = [] then err_message e
      else if err_message e = [] then err_name e
      else err_name e @ '': '' @ err_message e)"

text \<open>The places of the handler where the JavaScript runtime itself throws a TypeError.\<close>

datatype fault =
    DestructureBody
  | LengthOfStopWords
  | TemplateOperand
  | ResultsNotAnArray
  | StatusOfResult

subsection \<open>The imported modules, the clock and the runtime: parameters\<close>

text \<open>
  What the analysis does while the handler awaits it is seen by the handler only through
  the two callbacks it passes: a log callback \<^verbatim>\<open>(msg) => addLog(msg, 'info')\<close> and
  the status callback. A run of the analysis is therefore the sequence of its callback
  invocations, followed by the value it resolves to or the error it rejects with. The
  analysis is taken to settle, and the messages it logs are taken to be strings.
\<close>

datatype engine_event = EvLog string | EvStatus jsval

record env =
  defaultStopWords :: jsval
  parseStopWords :: "string \<Rightarrow> js_error + jsval"
  combineStopWords :: "jsval \<Rightarrow> js_error + jsval"
  analyzeDomainsForSpam ::
    "jsval \<Rightarrow> jsval \<Rightarrow> jsval \<Rightarrow> int \<Rightarrow> engine_event list \<times> (js_error + jsval)"
  now :: "nat \<Rightarrow> string"
  typeError :: "fault \<Rightarrow> js_error"

text \<open>
  \<open>now env k\<close> is the ISO string that the \<open>k\<close>-th evaluation of
  \<^verbatim>\<open>new Date().toISOString()\<close> yields; \<open>typeError env f\<close> is the TypeError object
  the runtime builds at fault \<open>f\<close> (its message and stack text are the runtime's).
\<close>

subsection \<open>State\<close>

record log_entry =
  timestamp :: string
  type :: string
  message :: string

datatype console_line = ConsoleLog string | ConsoleError string js_error

record engine_call =
  call_domains :: jsval
  call_stopWords :: jsval
  call_snapshotsLimit :: jsval
  call_maxConcurrent :: int

text \<open>
  The process state the handler touches: the module-level map \<^verbatim>\<open>domainStatuses\<close>
  (a JavaScript \<^verbatim>\<open>Map\<close>, kept as the list of its entries in insertion order), the
  console, the number of clock reads so far, and the record of the calls made to the
  analysis, with their arguments.
\<close>

record state =
  domainStatuses :: "(jsval \<times> jsval) list"
  console :: "console_line list"
  clock :: nat
  calls :: "engine_call list"

text \<open>
  \<^verbatim>\<open>Map.prototype.set\<close>: an existing key keeps its place, a new key goes last. Keys
  are compared as values, which is the comparison of the \<^verbatim>\<open>Map\<close> on strings and the
  other primitive keys (two distinct objects that look alike would be two keys there).
\<close>

fun Map_set :: "('k \<times> 'v) list \<Rightarrow> 'k \<Rightarrow> 'v \<Rightarrow> ('k \<times> 'v) list" where
  "Map_set [] k v = [(k, v)]"
| "Map_set ((k', v') # m) k v = (if k' = k then (k, v) # m else (k', v') # Map_set m k v)"

record request = "method" :: string  body :: jsval

record response =
  status :: nat
  json :: jsval

type_synonym ctx = "state \<times> log_entry list"

subsection \<open>The handler\<close>

text \<open>Lines 14 to 18: \<^verbatim>\<open>addLog\<close> reads the clock, pushes the entry and prints it.\<close>

definition addLog :: "env \<Rightarrow> string \<Rightarrow> string \<Rightarrow> ctx \<Rightarrow> ctx" where
  "addLog env msg ty c =
     (let st = fst c; logs = snd c;
          entry = \<lparr>timestamp = now env (clock st), type = ty, message = msg\<rparr>
      in (st\<lparr>clock := Suc (clock st),
              console := console st @ [ConsoleLog (''['' @ toUpperCase ty @ ''] '' @ msg)]\<rparr>,
          logs @ [entry]))"

text \<open>A log entry as it appears in the response.\<close>

definition log_json :: "log_entry \<Rightarrow> jsval" where
  "log_json e =
     JObj [(''timestamp'', JStr (timestamp e)), (''type'', JStr (type e)),
           (''message'', JStr (message e))]"

text \<open>
  Lines 50 to 52. On \<^verbatim>\<open>undefined\<close> or \<^verbatim>\<open>null\<close> the read of \<^verbatim>\<open>.domain\<close>
  throws into the analysis and the map is left as it is.
\<close>

definition statusCallback :: "jsval \<Rightarrow> state \<Rightarrow> state" where
  "statusCallback domainStatus st =
     (if nullish domainStatus then st
      else st\<lparr>domainStatuses :=
                Map_set (domainStatuses st) (getProp domainStatus ''domain'') domainStatus\<rparr>)"

fun run_events :: "env \<Rightarrow> engine_event list \<Rightarrow> ctx \<Rightarrow> ctx" where
  "run_events env [] c = c"
| "run_events env (EvLog msg # es) c = run_events env es (addLog env msg ''info'' c)"
| "run_events env (EvStatus v # es) c = run_events env es (statusCallback v (fst c), snd c)"

text \<open>Lines 34 to 41.\<close>

definition finalStopWords :: "env \<Rightarrow> jsval \<Rightarrow> js_error + jsval" where
  "finalStopWords env stopWords =
     (if truthy stopWords then
        (case stopWords of
           JStr s \<Rightarrow>
             (case parseStopWords env s of
                Inl e \<Rightarrow> Inl e
              | Inr parsed \<Rightarrow> combineStopWords env parsed)
         | JArr xs \<Rightarrow> combineStopWords env (JArr xs)
         | _ \<Rightarrow> Inr (defaultStopWords env))
      else Inr (defaultStopWords env))"

text \<open>Line 43: \<^verbatim>\<open>maxSnapshots || 10\<close>.\<close>

definition snapshotsLimit :: "jsval \<Rightarrow> jsval" where
  "snapshotsLimit maxSnapshots = (if truthy maxSnapshots then maxSnapshots else JNum 10)"

text \<open>Lines 65 to 72.\<close>

record summary =
  total :: int
  clean :: int
  suspicious :: int
  spam :: int
  unavailable :: int
  no_snapshots :: int

definition count_status :: "string \<Rightarrow> jsval list \<Rightarrow> int" where
  "count_status s results = int (length (filter (\<lambda>r. getProp r ''status'' = JStr s) results))"

text \<open>
  \<^verbatim>\<open>results.length\<close> throws on \<^verbatim>\<open>undefined\<close> and \<^verbatim>\<open>null\<close>; on any other
  value that is not an array \<^verbatim>\<open>results.filter\<close> is not a function; in an array, the
  first filter reads \<^verbatim>\<open>r.status\<close> of every element and throws on an element that is
  \<^verbatim>\<open>undefined\<close> or \<^verbatim>\<open>null\<close>.
\<close>

definition calc_summary :: "env \<Rightarrow> jsval \<Rightarrow> js_error + summary" where
  "calc_summary env results =
     (case results of
        JArr rs \<Rightarrow>
          if list_ex nullish rs then Inl (typeError env StatusOfResult)
          else Inr \<lparr>total = int (length rs),
                    clean = count_status ''CLEAN'' rs,
                    suspicious = count_status ''SUSPICIOUS'' rs,
                    spam = count_status ''SPAM'' rs,
                    unavailable = count_status ''UNAVAILABLE'' rs,
                    no_snapshots = count_status ''NO_SNAPSHOTS'' rs\<rparr>
      | _ \<Rightarrow> Inl (typeError env ResultsNotAnArray))"

definition summary_json :: "summary \<Rightarrow> jsval" where
  "summary_json s =
     JObj [(''total'', JNum (total s)), (''clean'', JNum (clean s)),
           (''suspicious'', JNum (suspicious s)), (''spam'', JNum (spam s)),
           (''unavailable'', JNum (unavailable s)),
           (''no_snapshots'', JNum (no_snapshots s))]"

text \<open>The two marks of the log messages, U+2705 and U+274C, in UTF-8.\<close>

definition check_mark :: string where
  "check_mark = [CHR 0xE2, CHR 0x9C, CHR 0x85]"

definition cross_mark :: string where
  "cross_mark = [CHR 0xE2, CHR 0x9D, CHR 0x8C]"

text \<open>
  The shape shared by the two catch blocks (lines 83 to 86 and 90 to 93): the message is
  logged, and the stack after it when \<^verbatim>\<open>error.stack\<close> is truthy.
\<close>

definition log_error :: "env \<Rightarrow> string \<Rightarrow> js_error \<Rightarrow> ctx \<Rightarrow> ctx" where
  "log_error env label error c =
     (let c1 = addLog env (cross_mark @ label @ err_message error) ''error'' c
      in case err_stack error of
           None \<Rightarrow> c1
         | Some s \<Rightarrow> if s \<noteq> [] then addLog env (''Stack: '' @ s) ''error'' c1 else c1)"

text \<open>Lines 82 to 88: the inner catch logs the error and throws it again.\<close>

definition inner_catch :: "env \<Rightarrow> js_error \<Rightarrow> ctx \<Rightarrow> ctx \<times> (js_error + response)" where
  "inner_catch env error c = (log_error env '' Error: '' error c, Inl error)"

text \<open>Lines 64 to 81: the summary, the closing log entry and the response 200.\<close>

definition respond_ok :: "env \<Rightarrow> jsval \<Rightarrow> ctx \<Rightarrow> ctx \<times> (js_error + response)" where
  "respond_ok env results c =
     (case calc_summary env results of
        Inl error \<Rightarrow> inner_catch env error c
      | Inr s \<Rightarrow>
          (let c1 = addLog env
                      (check_mark @ '' Analysis complete: '' @ show_int (clean s) @ '' clean, ''
                        @ show_int (suspicious s) @ '' suspicious, ''
                        @ show_int (spam s) @ '' spam'')
                      ''success'' c
           in (c1, Inr \<lparr>status = 200,
                        json = JObj [(''success'', JBool True), (''results'', results),
                                     (''summary'', summary_json s),
                                     (''logs'', JArr (map log_json (snd c1)))]\<rparr>)))"

text \<open>
  Lines 54 to 88: the call of the analysis with the literal bound 3. While it is awaited
  its callbacks run; then it resolves or rejects.
\<close>

definition engine_run :: "env \<Rightarrow> engine_call \<Rightarrow> engine_event list \<times> (js_error + jsval)" where
  "engine_run env c =
     analyzeDomainsForSpam env (call_domains c) (call_stopWords c) (call_snapshotsLimit c)
       (call_maxConcurrent c)"

definition analyze :: "env \<Rightarrow> jsval \<Rightarrow> jsval \<Rightarrow> jsval \<Rightarrow> ctx \<Rightarrow> ctx \<times> (js_error + response)" where
  "analyze env domains words limit c =
     (let call = \<lparr>call_domains = domains, call_stopWords = words,
                  call_snapshotsLimit = limit, call_maxConcurrent = 3\<rparr>;
          st = fst c;
          c1 = run_events env (fst (engine_run env call))
                 (st\<lparr>calls := calls st @ [call]\<rparr>, snd c)
      in case snd (engine_run env call) of
           Inl error \<Rightarrow> inner_catch env error c1
         | Inr results \<Rightarrow> respond_ok env results c1)"

text \<open>A template literal with one operand, \<^verbatim>\<open>`pre${v}post`\<close>.\<close>

definition template :: "env \<Rightarrow> string \<Rightarrow> jsval \<Rightarrow> string \<Rightarrow> js_error + string" where
  "template env pre v post =
     (case ToString v of
        None \<Rightarrow> Inl (typeError env TemplateOperand)
      | Some s \<Rightarrow> Inr (pre @ s @ post))"

text \<open>
  Lines 45 to 47: the three opening log entries. The argument of each call is evaluated
  before the call, so a throwing operand leaves the entries logged so far.
\<close>

definition log_start :: "env \<Rightarrow> jsval \<Rightarrow> jsval \<Rightarrow> jsval \<Rightarrow> ctx \<Rightarrow> ctx \<times> js_error option" where
  "log_start env domains words limit c =
     (case template env ''Starting spam analysis for '' (getProp domains ''length'')
             '' domain(s)'' of
        Inl error \<Rightarrow> (c, Some error)
      | Inr m1 \<Rightarrow>
          (let c1 = addLog env m1 ''info'' c
           in if nullish words then (c1, Some (typeError env LengthOfStopWords))
              else
                (case template env ''Using '' (getProp words ''length'') '' stop words'' of
                   Inl error \<Rightarrow> (c1, Some error)
                 | Inr m2 \<Rightarrow>
                     (let c2 = addLog env m2 ''info'' c1
                      in (case template env ''Max snapshots per domain: '' limit [] of
                            Inl error \<Rightarrow> (c2, Some error)
                          | Inr m3 \<Rightarrow> (addLog env m3 ''info'' c2, None))))))"

text \<open>Lines 23 to 28: the response to a request without a non-empty array of domains.\<close>

definition invalid_domains :: "jsval \<Rightarrow> bool" where
  "invalid_domains domains =
     (\<not> truthy domains \<or> \<not> isArray domains \<or> getProp domains ''length'' = JNum 0)"

definition reject :: "env \<Rightarrow> state \<Rightarrow> ctx \<times> (js_error + response)" where
  "reject env st =
     ((st\<lparr>clock := Suc (clock st)\<rparr>, []),
      Inr \<lparr>status = 400,
           json = JObj
             [(''error'', JStr ''domains array is required''),
              (''logs'', JArr [log_json
                 \<lparr>timestamp = now env (clock st), type = ''error'',
                  message = ''domains array is required''\<rparr>])]\<rparr>)"

text \<open>
  Lines 20 to 88, the body of the outer \<^verbatim>\<open>try\<close>: the result is the context reached
  and either the response returned or the error thrown to the outer catch. Destructuring
  \<^verbatim>\<open>req.body\<close> throws when the body is \<^verbatim>\<open>undefined\<close> or \<^verbatim>\<open>null\<close>.
\<close>

definition try_block :: "env \<Rightarrow> request \<Rightarrow> state \<Rightarrow> ctx \<times> (js_error + response)" where
  "try_block env req st =
     (if nullish (body req) then ((st, []), Inl (typeError env DestructureBody))
      else
        (let domains = getProp (body req) ''domains'';
             stopWords = getProp (body req) ''stopWords'';
             maxSnapshots = getProp (body req) ''maxSnapshots''
         in if invalid_domains domains then reject env st
            else
              (let st1 = st\<lparr>domainStatuses := []\<rparr>
               in (case finalStopWords env stopWords of
                     Inl error \<Rightarrow> ((st1, []), Inl error)
                   | Inr words \<Rightarrow>
                       (let limit = snapshotsLimit maxSnapshots
                        in (case log_start env domains words limit (st1, []) of
                              (c, Some error) \<Rightarrow> (c, Inl error)
                            | (c, None) \<Rightarrow> analyze env domains words limit c))))))"

text \<open>Lines 89 to 102: the outer catch logs the error and answers 500.\<close>

definition outer_catch :: "env \<Rightarrow> js_error \<Rightarrow> ctx \<Rightarrow> state \<times> response" where
  "outer_catch env error c =
     (let c1 = log_error env '' Fatal error: '' error c;
          st = fst c1
      in (st\<lparr>console := console st @ [ConsoleError ''Spam analysis error:'' error]\<rparr>,
          \<lparr>status = 500,
           json = JObj
             [(''error'', JStr ''Spam analysis failed''),
              (''message'', JStr (err_message error)),
              (''details'', JStr (if stack_truthy error then the_stack error
                                   else error_toString error)),
              (''logs'', JArr (map log_json (snd c1)))]\<rparr>))"

text \<open>
  Lines 8 to 103, as one run: the request is taken from the method check to its response
  with nothing else happening in between. That is how the source runs on every path but
  one; where it awaits the analysis (line 55) other requests may run meanwhile, which the
  subsection on the await below takes apart.
\<close>

definition handler :: "env \<Rightarrow> state \<Rightarrow> request \<Rightarrow> state \<times> response" where
  "handler env st req =
     (if method req \<noteq> ''POST'' then
        (st, \<lparr>status = 405, json = JObj [(''error'', JStr ''Method not allowed'')]\<rparr>)
      else
        (case try_block env req st of
           (c, Inr resp) \<Rightarrow> (fst c, resp)
         | (c, Inl error) \<Rightarrow> outer_catch env error c))"

subsection \<open>Notions used by the properties\<close>

text \<open>The calls of the analysis made between two states.\<close>

definition new_calls :: "state \<Rightarrow> state \<Rightarrow> engine_call list" where
  "new_calls st st' = drop (length (calls st)) (calls st')"

text \<open>The \<^verbatim>\<open>logs\<close> array of a response; a response without one has no entries.\<close>

definition response_logs :: "response \<Rightarrow> jsval list" where
  "response_logs resp = (case getProp (json resp) ''logs'' of JArr ls \<Rightarrow> ls | _ \<Rightarrow> [])"

text \<open>
  A sequence of log entries is in emission order from clock read \<open>k\<close> on when its
  \<open>i\<close>-th entry carries the time of the \<open>(k + i)\<close>-th clock read, and its levels are
  the three the handler uses.
\<close>

definition levels :: "string list" where
  "levels = [''info'', ''success'', ''error'']"

definition stamped :: "env \<Rightarrow> nat \<Rightarrow> log_entry list \<Rightarrow> bool" where
  "stamped env k logs =
     (\<forall>i < length logs. timestamp (logs ! i) = now env (k + i) \<and> type (logs ! i) \<in> set levels)"

text \<open>
  The statuses the status callback has stored, in the order of the calls, and the latest
  of them for a domain.
\<close>

fun reported :: "engine_event list \<Rightarrow> jsval list" where
  "reported [] = []"
| "reported (EvLog msg # es) = reported es"
| "reported (EvStatus v # es) = (if nullish v then reported es else v # reported es)"

definition latest_status :: "engine_event list \<Rightarrow> jsval \<Rightarrow> jsval option" where
  "latest_status es d =
     (case filter (\<lambda>v. getProp v ''domain'' = d) (reported es) of
        [] \<Rightarrow> None
      | v # vs \<Rightarrow> Some (last (v # vs)))"

text \<open>The messages the log callback of the analysis has received, in order.\<close>

fun engine_messages :: "engine_event list \<Rightarrow> string list" where
  "engine_messages [] = []"
| "engine_messages (EvLog msg # es) = msg # engine_messages es"
| "engine_messages (EvStatus v # es) = engine_messages es"

text \<open>The messages the two catch blocks log for an error thrown by the analysis.\<close>

definition error_messages :: "js_error \<Rightarrow> string list" where
  "error_messages error =
     (let stack = (if stack_truthy error then [''Stack: '' @ the_stack error] else [])
      in [cross_mark @ '' Error: '' @ err_message error] @ stack
         @ [cross_mark @ '' Fatal error: '' @ err_message error] @ stack)"

text \<open>
  Modelled from the spec: the DomainStatus that the analysis engine
  \<^verbatim>\<open>analyzeDomainsForSpam\<close>, whose code is not among the sources, returns for a
  domain. Its status is one of CLEAN, SUSPICIOUS, SPAM, UNAVAILABLE and NO_SNAPSHOTS.
\<close>

definition terminal_status :: "jsval \<Rightarrow> bool" where
  "terminal_status r =
     (\<not> nullish r \<and>
      getProp r ''status'' \<in> set (map JStr
        [''CLEAN'', ''SUSPICIOUS'', ''SPAM'', ''UNAVAILABLE'', ''NO_SNAPSHOTS'']))"

text \<open>
  Modelled from the spec: the BatchResult that \<^verbatim>\<open>analyzeDomainsForSpam\<close> resolves
  to for a list of input domains, an array with one terminal DomainStatus per domain.
\<close>

definition BatchResult :: "jsval \<Rightarrow> jsval \<Rightarrow> bool" where
  "BatchResult domains results =
     (case (domains, results) of
        (JArr ds, JArr rs) \<Rightarrow> length rs = length ds \<and> list_all terminal_status rs
      | _ \<Rightarrow> False)"

subsection \<open>A concrete environment\<close>

text \<open>
  An environment to run the handler on: the analysis reports one log line and one status
  per domain and resolves to one result per domain, as in the scenario of the spec
  (\<^verbatim>\<open>spammy.example\<close> is SPAM, \<^verbatim>\<open>dead.example\<close> is UNAVAILABLE, any other domain
  is CLEAN); handed anything but an array it rejects.
\<close>

definition example_error :: js_error where
  "example_error =
     \<lparr>err_name = ''Error'', err_message = ''archive unreachable'',
      err_stack = Some ''Error: archive unreachable at fetch''\<rparr>"

definition example_status :: "jsval \<Rightarrow> jsval" where
  "example_status d =
     JObj [(''domain'', d),
           (''status'', JStr (if d = JStr ''spammy.example'' then ''SPAM''
                              else if d = JStr ''dead.example'' then ''UNAVAILABLE''
                              else ''CLEAN''))]"

definition example_engine ::
  "jsval \<Rightarrow> jsval \<Rightarrow> jsval \<Rightarrow> int \<Rightarrow> engine_event list \<times> (js_error + jsval)" where
  "example_engine domains words limit k =
     (case domains of
        JArr ds \<Rightarrow>
          (concat (map (\<lambda>d. [EvLog ''Analyzing'', EvStatus (example_status d)]) ds),
           Inr (JArr (map example_status ds)))
      | _ \<Rightarrow> ([], Inl example_error))"

definition example_words :: "jsval list" where
  "example_words = [JStr ''casino'', JStr ''viagra'']"

definition example_env :: env where
  "example_env =
     \<lparr>defaultStopWords = JArr example_words,
      parseStopWords = (\<lambda>s. Inr (JArr [JStr s])),
      combineStopWords =
        (\<lambda>v. case v of JArr xs \<Rightarrow> Inr (JArr (example_words @ xs))
                      | _ \<Rightarrow> Inr (JArr example_words)),
      analyzeDomainsForSpam = example_engine,
      now = (\<lambda>k. ''T'' @ show_nat k),
      typeError =
        (\<lambda>f. \<lparr>err_name = ''TypeError'', err_message = ''not an object'',
               err_stack = None\<rparr>)\<rparr>"

text \<open>The same environment with an analysis that logs one line and then rejects.\<close>

definition failing_env :: env where
  "failing_env =
     example_env\<lparr>analyzeDomainsForSpam :=
       (\<lambda>domains words limit k. ([EvLog ''Fetching''], Inl example_error))\<rparr>"

text \<open>A state left behind by an earlier request, and some requests.\<close>

definition example_state :: state where
  "example_state =
     \<lparr>domainStatuses = [(JStr ''old.example'', example_status (JStr ''old.example''))],
      console = [], clock = 0, calls = []\<rparr>"

definition example_domains :: jsval where
  "example_domains =
     JArr [JStr ''clean.example'', JStr ''spammy.example'', JStr ''dead.example'']"

definition post :: "(string \<times> jsval) list \<Rightarrow> request" where
  "post props = \<lparr>method = ''POST'', body = JObj props\<rparr>"

subsection \<open>Auxiliary notions for the proofs\<close>

text \<open>The request with the property \<^verbatim>\<open>stopWords\<close> removed from its body.\<close>

definition without_stopWords :: "request \<Rightarrow> request" where
  "without_stopWords req =
     (case body req of
        JObj props \<Rightarrow> req\<lparr>body := JObj (filter (\<lambda>p. fst p \<noteq> ''stopWords'') props)\<rparr>
      | _ \<Rightarrow> req)"

text \<open>The call of the analysis that a request leads to, given the final stop words.\<close>

definition the_call :: "env \<Rightarrow> request \<Rightarrow> jsval \<Rightarrow> engine_call" where
  "the_call env req words =
     \<lparr>call_domains = getProp (body req) ''domains'', call_stopWords = words,
      call_snapshotsLimit = snapshotsLimit (getProp (body req) ''maxSnapshots''),
      call_maxConcurrent = 3\<rparr>"

text \<open>The opening log entries of a request, written after the map has been cleared.\<close>

definition started :: "env \<Rightarrow> request \<Rightarrow> state \<Rightarrow> jsval \<Rightarrow> ctx \<times> js_error option" where
  "started env req st words =
     log_start env (getProp (body req) ''domains'') words
       (snapshotsLimit (getProp (body req) ''maxSnapshots''))
       (st\<lparr>domainStatuses := []\<rparr>, [])"

text \<open>What the handler makes of the outcome of its \<^verbatim>\<open>try\<close> block.\<close>

definition finish :: "env \<Rightarrow> ctx \<times> (js_error + response) \<Rightarrow> state \<times> response" where
  "finish env t =
     (case snd t of
        Inr resp \<Rightarrow> (fst (fst t), resp)
      | Inl error \<Rightarrow> outer_catch env error (fst t))"

text \<open>
  A request that passes the method check, the destructuring of its body and the
  validation of its domains.
\<close>

definition valid_request :: "request \<Rightarrow> bool" where
  "valid_request req =
     (method req = ''POST'' \<and> \<not> nullish (body req) \<and>
      \<not> invalid_domains (getProp (body req) ''domains''))"

text \<open>The map that results from storing a sequence of statuses, one after the other.\<close>

definition store :: "(jsval \<times> jsval) list \<Rightarrow> jsval list \<Rightarrow> (jsval \<times> jsval) list" where
  "store m vs = foldl (\<lambda>m v. Map_set m (getProp v ''domain'') v) m vs"

text \<open>
  A context whose log is in emission order from clock read \<open>k\<close> on, the clock having
  been read once for each entry.
\<close>

definition in_order :: "env \<Rightarrow> nat \<Rightarrow> ctx \<Rightarrow> bool" where
  "in_order env k c = (clock (fst c) = k + length (snd c) \<and> stamped env k (snd c))"

text \<open>The sum of the five counts of the summary.\<close>

definition counted :: "jsval list \<Rightarrow> int" where
  "counted rs =
     count_status ''CLEAN'' rs + count_status ''SUSPICIOUS'' rs + count_status ''SPAM'' rs
       + count_status ''UNAVAILABLE'' rs + count_status ''NO_SNAPSHOTS'' rs"

text \<open>Requests for the example domains, and the call they lead to.\<close>

definition example_request :: "(string \<times> jsval) list \<Rightarrow> request" where
  "example_request extra = post ((''domains'', example_domains) # extra)"

definition example_call :: "jsval \<Rightarrow> jsval \<Rightarrow> engine_call" where
  "example_call words limit =
     \<lparr>call_domains = example_domains, call_stopWords = words,
      call_snapshotsLimit = limit, call_maxConcurrent = 3\<rparr>"

subsection \<open>The stop-word utility\<close>










subsection \<open>The await: requests that overlap\<close>

text \<open>
  \<open>handler\<close> above runs a request from its first line to its response in one piece. The
  source is an \<^verbatim>\<open>async\<close> function: at the \<^verbatim>\<open>await\<close> of line 55 it is
  suspended until the analysis settles, the callbacks of the analysis run one by one in
  the meantime, and between any two of them other requests can run on the same process
  state. The paths that answer 405, 400 or 500 before line 55 have no such point.

  \<open>suspended\<close> is the state of the process and of the request at the call of line 55,
  for a request that gets there; \<open>deliver\<close> runs the next \<open>k\<close> callback invocations
  of the suspended request on the state it finds; \<open>complete\<close> runs the remaining ones
  and lines 64 to 101 (\<open>settle\<close> is the outcome of the \<^verbatim>\<open>await\<close>). The log is local
  to the request and travels with it; the map, the console, the clock and the record of
  calls are the process's.
\<close>

record pending =
  p_call :: engine_call
  p_logs :: "log_entry list"
  p_events :: "engine_event list"

definition suspended :: "env \<Rightarrow> state \<Rightarrow> request \<Rightarrow> (state \<times> pending) option" where
  "suspended env st req =
     (if valid_request req then
        (case finalStopWords env (getProp (body req) ''stopWords'') of
           Inl error \<Rightarrow> None
         | Inr words \<Rightarrow>
             (case started env req st words of
                (c, Some error) \<Rightarrow> None
              | (c, None) \<Rightarrow>
                  Some ((fst c)\<lparr>calls := calls (fst c) @ [the_call env req words]\<rparr>,
                        \<lparr>p_call = the_call env req words, p_logs = snd c,
                         p_events = fst (engine_run env (the_call env req words))\<rparr>)))
      else None)"

definition deliver :: "env \<Rightarrow> nat \<Rightarrow> state \<times> pending \<Rightarrow> state \<times> pending" where
  "deliver env k sp =
     (let p = snd sp;
          c = run_events env (take k (p_events p)) (fst sp, p_logs p)
      in (fst c, p\<lparr>p_logs := snd c, p_events := drop k (p_events p)\<rparr>))"

definition settle :: "env \<Rightarrow> engine_call \<Rightarrow> ctx \<Rightarrow> ctx \<times> (js_error + response)" where
  "settle env call c =
     (case snd (engine_run env call) of
        Inl error \<Rightarrow> inner_catch env error c
      | Inr results \<Rightarrow> respond_ok env results c)"

definition complete :: "env \<Rightarrow> state \<times> pending \<Rightarrow> state \<times> response" where
  "complete env sp =
     (let p = snd sp
      in finish env (settle env (p_call p) (run_events env (p_events p) (fst sp, p_logs p))))"

text \<open>
  One schedule of two requests: request A runs up to its \<^verbatim>\<open>await\<close> and receives
  \<open>k\<close> callback invocations; then request B arrives and runs to its response; then A
  receives its remaining callback invocations and responds.
\<close>

definition overlapped ::
  "env \<Rightarrow> state \<Rightarrow> request \<Rightarrow> nat \<Rightarrow> request \<Rightarrow> (state \<times> response) option" where
  "overlapped env st reqA k reqB =
     (case suspended env st reqA of
        None \<Rightarrow> None
      | Some sp \<Rightarrow>
          (let sp1 = deliver env k sp;
               stB = fst (handler env (fst sp1) reqB)
           in Some (complete env (stB, snd sp1))))"

text \<open>
  The operations of the handler on the map: the \<^verbatim>\<open>clear\<close> of line 31 and the
  \<^verbatim>\<open>set\<close> of line 51 (which is not reached when the status is \<^verbatim>\<open>undefined\<close> or
  \<^verbatim>\<open>null\<close>). Whatever the schedule of the requests, the map goes through a sequence
  of these.
\<close>

datatype map_op = Clear | Report jsval

fun map_step :: "map_op \<Rightarrow> (jsval \<times> jsval) list \<Rightarrow> (jsval \<times> jsval) list" where
  "map_step Clear m = []"
| "map_step (Report v) m = (if nullish v then m else Map_set m (getProp v ''domain'') v)"

definition run_ops :: "map_op list \<Rightarrow> (jsval \<times> jsval) list \<Rightarrow> (jsval \<times> jsval) list" where
  "run_ops ops m = foldl (\<lambda>m op. map_step op m) m ops"

fun event_ops :: "engine_event list \<Rightarrow> map_op list" where
  "event_ops [] = []"
| "event_ops (EvLog msg # es) = event_ops es"
| "event_ops (EvStatus v # es) = Report v # event_ops es"

text \<open>
  The statuses stored by a sequence of operations, the operations after the last
  \<^verbatim>\<open>clear\<close>, and the latest status stored for a domain since the last
  \<^verbatim>\<open>clear\<close> (or found in the map, when nothing cleared it).
\<close>

fun stored :: "map_op list \<Rightarrow> jsval list" where
  "stored [] = []"
| "stored (Clear # ops) = stored ops"
| "stored (Report v # ops) = (if nullish v then stored ops else v # stored ops)"

definition since_clear :: "map_op list \<Rightarrow> map_op list" where
  "since_clear ops = rev (takeWhile (\<lambda>op. op \<noteq> Clear) (rev ops))"

definition latest_since_clear ::
  "(jsval \<times> jsval) list \<Rightarrow> map_op list \<Rightarrow> jsval \<Rightarrow> jsval option" where
  "latest_since_clear m ops d =
     (case filter (\<lambda>v. getProp v ''domain'' = d) (stored (since_clear ops)) of
        [] \<Rightarrow> (if Clear \<in> set ops then None else map_of m d)
      | v # vs \<Rightarrow> Some (last (v # vs)))"

text \<open>A second request, for another domain.\<close>

definition other_request :: request where
  "other_request = post [(''domains'', JArr [JStr ''other.example''])]"


section \<open>Properties\<close>

subsection \<open>What each step does to the state and to the log\<close>

lemma addLog_calls: "calls (fst (addLog env m t c)) = calls (fst c)"
  by (simp add: addLog_def Let_def)

lemma addLog_domainStatuses: "domainStatuses (fst (addLog env m t c)) = domainStatuses (fst c)"
  by (simp add: addLog_def Let_def)

lemma addLog_clock: "clock (fst (addLog env m t c)) = Suc (clock (fst c))"
  by (simp add: addLog_def Let_def)

lemma addLog_logs:
  "snd (addLog env m t c) =
   snd c @ [\<lparr>timestamp = now env (clock (fst c)), type = t, message = m\<rparr>]"
  by (simp add: addLog_def Let_def)

lemma log_error_calls: "calls (fst (log_error env l e c)) = calls (fst c)"
  by (simp add: log_error_def Let_def addLog_calls split: option.splits)

lemma log_error_domainStatuses:
  "domainStatuses (fst (log_error env l e c)) = domainStatuses (fst c)"
  by (simp add: log_error_def Let_def addLog_domainStatuses split: option.splits)

lemma run_events_calls: "calls (fst (run_events env es c)) = calls (fst c)"
  by (induction env es c rule: run_events.induct)
     (simp_all add: addLog_calls statusCallback_def)

lemma log_start_calls: "calls (fst (fst (log_start env d w l c))) = calls (fst c)"
  by (simp add: log_start_def Let_def addLog_calls split: sum.splits option.splits)

lemma log_start_domainStatuses:
  "domainStatuses (fst (fst (log_start env d w l c))) = domainStatuses (fst c)"
  by (simp add: log_start_def Let_def addLog_domainStatuses split: sum.splits option.splits)

lemma respond_ok_calls: "calls (fst (fst (respond_ok env r c))) = calls (fst c)"
  by (simp add: respond_ok_def inner_catch_def Let_def addLog_calls log_error_calls
           split: sum.splits)

lemma analyze_calls:
  "calls (fst (fst (analyze env d w l c))) =
   calls (fst c) @ [\<lparr>call_domains = d, call_stopWords = w, call_snapshotsLimit = l,
                     call_maxConcurrent = 3\<rparr>]"
  by (simp add: analyze_def Let_def inner_catch_def respond_ok_calls log_error_calls
                run_events_calls split: sum.splits)

lemma outer_catch_calls: "calls (fst (outer_catch env e c)) = calls (fst c)"
  by (simp add: outer_catch_def Let_def log_error_calls)

lemma outer_catch_domainStatuses:
  "domainStatuses (fst (outer_catch env e c)) = domainStatuses (fst c)"
  by (simp add: outer_catch_def Let_def log_error_domainStatuses)

subsection \<open>The paths through the handler\<close>

lemma try_block_nullish:
  "nullish (body req) \<Longrightarrow>
   try_block env req st = ((st, []), Inl (typeError env DestructureBody))"
  by (simp add: try_block_def)

lemma try_block_invalid:
  "\<not> nullish (body req) \<Longrightarrow> invalid_domains (getProp (body req) ''domains'') \<Longrightarrow>
   try_block env req st = reject env st"
  by (simp add: try_block_def)

lemma try_block_words_throw:
  "\<not> nullish (body req) \<Longrightarrow> \<not> invalid_domains (getProp (body req) ''domains'') \<Longrightarrow>
   finalStopWords env (getProp (body req) ''stopWords'') = Inl e \<Longrightarrow>
   try_block env req st = ((st\<lparr>domainStatuses := []\<rparr>, []), Inl e)"
  by (simp add: try_block_def)

lemma try_block_start_throw:
  "\<not> nullish (body req) \<Longrightarrow> \<not> invalid_domains (getProp (body req) ''domains'') \<Longrightarrow>
   finalStopWords env (getProp (body req) ''stopWords'') = Inr words \<Longrightarrow>
   started env req st words = (c, Some e) \<Longrightarrow>
   try_block env req st = (c, Inl e)"
  by (simp add: try_block_def started_def)

lemma try_block_analyze:
  "\<not> nullish (body req) \<Longrightarrow> \<not> invalid_domains (getProp (body req) ''domains'') \<Longrightarrow>
   finalStopWords env (getProp (body req) ''stopWords'') = Inr words \<Longrightarrow>
   started env req st words = (c, None) \<Longrightarrow>
   try_block env req st =
     analyze env (getProp (body req) ''domains'') words
       (snapshotsLimit (getProp (body req) ''maxSnapshots'')) c"
  by (simp add: try_block_def started_def)

lemma started_calls: "calls (fst (fst (started env req st words))) = calls st"
  by (simp add: started_def log_start_calls)

lemma handler_post: "method req = ''POST'' \<Longrightarrow> handler env st req = finish env (try_block env req st)"
  by (simp add: handler_def finish_def split: prod.splits sum.splits)

lemma finish_throw: "finish env (c, Inl e) = outer_catch env e c"
  by (simp add: finish_def)

lemma finish_return: "finish env (c, Inr resp) = (fst c, resp)"
  by (simp add: finish_def)

lemma handler_cases [consumes 1, case_names not_post null_body invalid words_throw start_throw analyzed]:
  assumes "handler env st req = (st', resp)"
  obtains
    (not_post) "method req \<noteq> ''POST''"
  | (null_body) "method req = ''POST''" "nullish (body req)"
      "outer_catch env (typeError env DestructureBody) (st, []) = (st', resp)"
  | (invalid) "method req = ''POST''" "\<not> nullish (body req)"
      "invalid_domains (getProp (body req) ''domains'')"
  | (words_throw) e where "method req = ''POST''" "\<not> nullish (body req)"
      "\<not> invalid_domains (getProp (body req) ''domains'')"
      "finalStopWords env (getProp (body req) ''stopWords'') = Inl e"
      "outer_catch env e (st\<lparr>domainStatuses := []\<rparr>, []) = (st', resp)"
  | (start_throw) words c e where "method req = ''POST''" "\<not> nullish (body req)"
      "\<not> invalid_domains (getProp (body req) ''domains'')"
      "finalStopWords env (getProp (body req) ''stopWords'') = Inr words"
      "started env req st words = (c, Some e)"
      "outer_catch env e c = (st', resp)"
  | (analyzed) words c where "method req = ''POST''" "\<not> nullish (body req)"
      "\<not> invalid_domains (getProp (body req) ''domains'')"
      "finalStopWords env (getProp (body req) ''stopWords'') = Inr words"
      "started env req st words = (c, None)"
      "finish env (analyze env (getProp (body req) ''domains'') words
         (snapshotsLimit (getProp (body req) ''maxSnapshots'')) c) = (st', resp)"
proof (cases "method req = ''POST''")
  case False
  then show ?thesis by (rule not_post)
next
  case post: True
  show ?thesis
  proof (cases "nullish (body req)")
    case True
    with post assms show ?thesis
      by (intro null_body) (simp_all add: handler_post try_block_nullish finish_throw)
  next
    case body: False
    show ?thesis
    proof (cases "invalid_domains (getProp (body req) ''domains'')")
      case True
      with post body show ?thesis by (rule invalid)
    next
      case valid: False
      show ?thesis
      proof (cases "finalStopWords env (getProp (body req) ''stopWords'')")
        case (Inl e)
        with post body valid assms show ?thesis
          by (intro words_throw [of e]) (simp_all add: handler_post try_block_words_throw finish_throw)
      next
        case (Inr words)
        obtain c r where s: "started env req st words = (c, r)"
          by (cases "started env req st words")
        show ?thesis
        proof (cases r)
          case (Some e)
          with post body valid Inr s assms show ?thesis
            by (intro start_throw [of words c e])
               (simp_all add: handler_post try_block_start_throw finish_throw)
        next
          case None
          with post body valid Inr s assms show ?thesis
            by (intro analyzed [of words c])
               (simp_all add: handler_post try_block_analyze)
        qed
      qed
    qed
  qed
qed




lemma outer_catch_status: "status (snd (outer_catch env e c)) = 500"
  by (simp add: outer_catch_def Let_def)

lemma respond_ok_status: "respond_ok env results c = (c', Inr resp) \<Longrightarrow> status resp = 200"
  by (auto simp: respond_ok_def inner_catch_def Let_def split: sum.splits)

lemma analyze_status: "analyze env d w l c = (c', Inr resp) \<Longrightarrow> status resp = 200"
  by (auto simp: analyze_def inner_catch_def Let_def split: sum.splits dest: respond_ok_status)

lemma finish_status: "finish env (analyze env d w l c) = (st', resp) \<Longrightarrow> status resp = 200 \<or> status resp = 500"
proof -
  assume a: "finish env (analyze env d w l c) = (st', resp)"
  obtain c' r where an: "analyze env d w l c = (c', r)" by (cases "analyze env d w l c")
  show ?thesis
  proof (cases r)
    case (Inl e)
    with a an have "resp = snd (outer_catch env e c')" by (simp add: finish_throw)
    then show ?thesis by (simp add: outer_catch_status)
  next
    case (Inr resp')
    with a an have "resp = resp'" by (simp add: finish_return)
    with an Inr show ?thesis by (auto dest: analyze_status)
  qed
qed


lemma handler_invalid:
  assumes "method req = ''POST''" and "\<not> nullish (body req)"
      and "invalid_domains (getProp (body req) ''domains'')"
  shows "handler env st req =
     (st\<lparr>clock := Suc (clock st)\<rparr>,
      \<lparr>status = 400,
       json = JObj
         [(''error'', JStr ''domains array is required''),
          (''logs'', JArr [log_json
             \<lparr>timestamp = now env (clock st), type = ''error'',
              message = ''domains array is required''\<rparr>])]\<rparr>)"
  using assms by (simp add: handler_def try_block_invalid reject_def)

subsection \<open>Facts about the concrete environment\<close>

lemma handler_pair: "handler env st req = (fst (handler env st req), snd (handler env st req))"
  by simp

lemma post_method: "method (post props) = ''POST''"
  by (simp add: post_def)

lemma post_body: "body (post props) = JObj props"
  by (simp add: post_def)

lemma example_state_calls: "calls example_state = []"
  by (simp add: example_state_def)

lemma new_calls_example: "new_calls example_state st' = calls st'"
  by (simp add: new_calls_def example_state_def)

lemma example_request_stopWords:
  "getProp (body (example_request [(''stopWords'', v)])) ''stopWords'' = v"
  "getProp (body (example_request [])) ''stopWords'' = JUndefined"
  by (simp_all add: example_request_def post_def)






subsection \<open>The method check\<close>

text \<open>
  Claim C8. A request whose method is not POST is answered with status 405 and the error
  \<^verbatim>\<open>Method not allowed\<close>, and the state is left exactly as it was: nothing is
  validated, no log entry is made, the console is not written, the clock is not read, the
  map of domain statuses is untouched and the analysis is not called.
\<close>

theorem method_not_allowed:
  "method req \<noteq> ''POST'' \<Longrightarrow>
   handler env st req =
     (st, \<lparr>status = 405, json = JObj [(''error'', JStr ''Method not allowed'')]\<rparr>)"
  by (simp add: handler_def)

theorem method_not_allowed_witness:
  "method \<lparr>method = ''GET'', body = JObj [(''domains'', example_domains)]\<rparr> \<noteq> ''POST'' \<and>
   handler example_env example_state
       \<lparr>method = ''GET'', body = JObj [(''domains'', example_domains)]\<rparr> =
     (example_state,
      \<lparr>status = 405, json = JObj [(''error'', JStr ''Method not allowed'')]\<rparr>)"
  using method_not_allowed
    [of "\<lparr>method = ''GET'', body = JObj [(''domains'', example_domains)]\<rparr>"
        example_env example_state]
  by simp

subsection \<open>The validation of the domains\<close>

text \<open>
  Claim C2, as the code has it. The claim speaks of every request; but a request that is
  not a POST is answered 405 by the method check, whatever its domains, and carries no log
  at all.
\<close>

theorem invalid_domains_get_counterexample:
  "getProp (body \<lparr>method = ''GET'', body = JObj []\<rparr>) ''domains'' = JUndefined \<and>
   status (snd (handler example_env example_state \<lparr>method = ''GET'', body = JObj []\<rparr>)) = 405 \<and>
   getProp (json (snd (handler example_env example_state \<lparr>method = ''GET'', body = JObj []\<rparr>)))
     ''logs'' = JUndefined"
  by (simp add: handler_def)

text \<open>
  Claim C2, amended. For every POST request with a body (one that is neither
  \<^verbatim>\<open>undefined\<close> nor \<^verbatim>\<open>null\<close>) whose \<^verbatim>\<open>domains\<close> is missing, is not an array or
  is the empty array, the handler answers 400 with the error
  \<^verbatim>\<open>domains array is required\<close> and a log that holds the single validation entry. The
  only change of state is the one clock read for that entry: the analysis is not called,
  no log entry is printed, and the map of domain statuses is not cleared.
\<close>

theorem invalid_domains_rejected:
  assumes "method req = ''POST''" and "\<not> nullish (body req)"
      and "getProp (body req) ''domains'' = JUndefined \<or>
           \<not> isArray (getProp (body req) ''domains'') \<or>
           getProp (body req) ''domains'' = JArr []"
  shows "handler env st req =
     (st\<lparr>clock := Suc (clock st)\<rparr>,
      \<lparr>status = 400,
       json = JObj
         [(''error'', JStr ''domains array is required''),
          (''logs'', JArr [log_json
             \<lparr>timestamp = now env (clock st), type = ''error'',
              message = ''domains array is required''\<rparr>])]\<rparr>)"
proof -
  have "invalid_domains (getProp (body req) ''domains'')"
    using assms(3) by (auto simp: invalid_domains_def)
  with assms(1,2) show ?thesis by (rule handler_invalid)
qed

theorem invalid_domains_rejected_witness:
  "method (post [(''domains'', JArr [])]) = ''POST'' \<and>
   \<not> nullish (body (post [(''domains'', JArr [])])) \<and>
   getProp (body (post [(''domains'', JArr [])])) ''domains'' = JArr [] \<and>
   handler example_env example_state (post [(''domains'', JArr [])]) =
     (example_state\<lparr>clock := Suc (clock example_state)\<rparr>,
      \<lparr>status = 400,
       json = JObj
         [(''error'', JStr ''domains array is required''),
          (''logs'', JArr [log_json
             \<lparr>timestamp = now example_env (clock example_state), type = ''error'',
              message = ''domains array is required''\<rparr>])]\<rparr>) \<and>
   getProp (body (post [])) ''domains'' = JUndefined \<and>
   handler example_env example_state (post []) =
     handler example_env example_state (post [(''domains'', JArr [])])"
  using invalid_domains_rejected [of "post [(''domains'', JArr [])]" example_env example_state]
        invalid_domains_rejected [of "post []" example_env example_state]
  by (simp add: post_method post_body)

subsection \<open>The snapshot limit\<close>



lemma example_request_maxSnapshots:
  "getProp (body (example_request [(''maxSnapshots'', v)])) ''maxSnapshots'' = v"
  "getProp (body (example_request [])) ''maxSnapshots'' = JUndefined"
  "getProp (body (example_request extra)) ''domains'' = example_domains"
  "method (example_request extra) = ''POST''"
  "\<not> nullish (body (example_request extra))"
  by (simp_all add: example_request_def post_def)






subsection \<open>The stop words\<close>

lemma finalStopWords_other:
  "\<not> isString v \<Longrightarrow> \<not> isArray v \<Longrightarrow> finalStopWords env v = Inr (defaultStopWords env)"
  by (cases v) (simp_all add: finalStopWords_def)

lemma map_of_filter_key:
  "map_of (filter (\<lambda>p. fst p \<noteq> a) ps) k = (if k = a then None else map_of ps k)"
  by (induction ps) auto

lemma without_stopWords_nullish: "nullish (body (without_stopWords req)) = nullish (body req)"
  by (cases "body req") (simp_all add: without_stopWords_def)

lemma without_stopWords_method: "method (without_stopWords req) = method req"
  by (cases "body req") (simp_all add: without_stopWords_def)

lemma without_stopWords_getProp:
  "getProp (body (without_stopWords req)) k =
   (if k = ''stopWords'' then JUndefined else getProp (body req) k)"
  by (cases "body req") (auto simp: without_stopWords_def map_of_filter_key)

lemma try_block_stopWords:
  assumes "nullish (body req') = nullish (body req)"
      and "getProp (body req') ''domains'' = getProp (body req) ''domains''"
      and "getProp (body req') ''maxSnapshots'' = getProp (body req) ''maxSnapshots''"
      and "finalStopWords env (getProp (body req') ''stopWords'') =
           finalStopWords env (getProp (body req) ''stopWords'')"
  shows "try_block env req' st = try_block env req st"
  using assms by (simp add: try_block_def Let_def)

text \<open>
  Claim C10. A \<^verbatim>\<open>stopWords\<close> that is neither a string nor an array is ignored: the
  final set is the default set, and the handler does exactly what it does for the same
  request without \<^verbatim>\<open>stopWords\<close> (the same response, the same log entries, the same
  state), so no error and no warning comes of it.
\<close>

theorem other_stop_words_ignored:
  assumes "getProp (body req) ''stopWords'' = v" and "\<not> isString v" and "\<not> isArray v"
  shows "finalStopWords env v = Inr (defaultStopWords env) \<and>
         handler env st req = handler env st (without_stopWords req)"
proof -
  have "finalStopWords env (getProp (body (without_stopWords req)) ''stopWords'') =
        finalStopWords env (getProp (body req) ''stopWords'')"
    using assms by (simp add: without_stopWords_getProp finalStopWords_other)
  then have "try_block env (without_stopWords req) st = try_block env req st"
    by (intro try_block_stopWords) (simp_all add: without_stopWords_nullish without_stopWords_getProp)
  then show ?thesis
    using assms by (simp add: handler_def without_stopWords_method finalStopWords_other)
qed

lemma example_calls_number:
  "calls (fst (handler example_env example_state (example_request [(''stopWords'', JNum 7)]))) =
   [example_call (JArr example_words) (JNum 10)]"
  by code_simp

theorem other_stop_words_ignored_witness:
  "getProp (body (example_request [(''stopWords'', JNum 7)])) ''stopWords'' = JNum 7 \<and>
   finalStopWords example_env (JNum 7) = Inr (defaultStopWords example_env) \<and>
   handler example_env example_state (example_request [(''stopWords'', JNum 7)]) =
     handler example_env example_state
       (without_stopWords (example_request [(''stopWords'', JNum 7)])) \<and>
   calls (fst (handler example_env example_state
       (without_stopWords (example_request [(''stopWords'', JNum 7)])))) =
     [example_call (JArr example_words) (JNum 10)]"
  using other_stop_words_ignored [of "example_request [(''stopWords'', JNum 7)]" "JNum 7"
      example_env example_state] example_calls_number
  by (simp add: example_request_stopWords)

subsection \<open>The map of domain statuses\<close>

lemma map_of_Map_set: "map_of (Map_set m k v) = (map_of m)(k \<mapsto> v)"
  by (induction m k v rule: Map_set.induct) auto

lemma map_of_store:
  "map_of (store m vs) d =
   (case filter (\<lambda>v. getProp v ''domain'' = d) vs of
      [] \<Rightarrow> map_of m d
    | v # r \<Rightarrow> Some (last (v # r)))"
  unfolding store_def
proof (induction vs arbitrary: m)
  case Nil
  then show ?case by simp
next
  case (Cons a vs)
  show ?case
    by (simp add: Cons.IH map_of_Map_set split: list.splits)
qed

lemma run_events_domainStatuses:
  "domainStatuses (fst (run_events env es c)) = store (domainStatuses (fst c)) (reported es)"
  by (induction env es c rule: run_events.induct)
     (simp_all add: addLog_domainStatuses statusCallback_def store_def)

lemma map_of_run_events:
  "domainStatuses (fst c) = [] \<Longrightarrow>
   map_of (domainStatuses (fst (run_events env es c))) = latest_status es"
  by (rule ext) (simp add: run_events_domainStatuses map_of_store latest_status_def split: list.splits)

lemma respond_ok_domainStatuses:
  "domainStatuses (fst (fst (respond_ok env r c))) = domainStatuses (fst c)"
  by (simp add: respond_ok_def inner_catch_def Let_def addLog_domainStatuses
        log_error_domainStatuses split: sum.splits)

lemma finish_domainStatuses: "domainStatuses (fst (finish env t)) = domainStatuses (fst (fst t))"
  by (simp add: finish_def outer_catch_domainStatuses split: sum.splits)

lemma finish_calls: "calls (fst (finish env t)) = calls (fst (fst t))"
  by (simp add: finish_def outer_catch_calls split: sum.splits)

lemma started_domainStatuses: "domainStatuses (fst (fst (started env req st words))) = []"
  by (simp add: started_def log_start_domainStatuses)

lemma handler_keeps_store:
  assumes "handler env st req = (st', resp)" and "\<not> valid_request req"
  shows "domainStatuses st' = domainStatuses st"
  using assms(1)
proof (cases rule: handler_cases)
  case not_post
  with assms(1) show ?thesis by (simp add: handler_def)
next
  case null_body
  then show ?thesis
    using outer_catch_domainStatuses [of env "typeError env DestructureBody" "(st, [])"] by simp
next
  case invalid
  with assms(1) show ?thesis by (auto simp: handler_invalid)
qed (use assms(2) in \<open>simp_all add: valid_request_def\<close>)

lemma handler_status_valid:
  assumes "handler env st req = (st', resp)" and "valid_request req"
  shows "status resp = 200 \<or> status resp = 500"
  using assms(1)
proof (cases rule: handler_cases)
  case (words_throw e)
  then show ?thesis
    using outer_catch_status [of env e "(st\<lparr>domainStatuses := []\<rparr>, [])"] by simp
next
  case (start_throw words c e)
  then show ?thesis using outer_catch_status [of env e c] by simp
next
  case (analyzed words c)
  then show ?thesis by (auto dest: finish_status)
qed (use assms(2) in \<open>simp_all add: valid_request_def\<close>)

lemma example_store_valid:
  "domainStatuses (fst (handler example_env example_state (example_request []))) =
   [(JStr ''clean.example'', example_status (JStr ''clean.example'')),
    (JStr ''spammy.example'', example_status (JStr ''spammy.example'')),
    (JStr ''dead.example'', example_status (JStr ''dead.example''))]"
  by code_simp


lemma example_invalid_request: "\<not> valid_request (post [])"
  by (simp add: valid_request_def post_body invalid_domains_def)

lemma stored_append: "stored (xs @ ys) = stored xs @ stored ys"
  by (induction xs rule: stored.induct) simp_all

lemma run_ops_snoc: "run_ops (ops @ [op]) m = map_step op (run_ops ops m)"
  by (simp add: run_ops_def)

lemma since_clear_snoc:
  "since_clear (ops @ [op]) = (if op = Clear then [] else since_clear ops @ [op])"
  by (simp add: since_clear_def)

lemma map_of_run_ops: "map_of (run_ops ops m) d = latest_since_clear m ops d"
proof (induction ops rule: rev_induct)
  case Nil
  show ?case by (simp add: run_ops_def latest_since_clear_def since_clear_def)
next
  case (snoc op ops)
  show ?case
  proof (cases op)
    case Clear
    then show ?thesis
      by (simp add: run_ops_snoc latest_since_clear_def since_clear_snoc)
  next
    case (Report v)
    with snoc show ?thesis
      by (auto simp: run_ops_snoc latest_since_clear_def since_clear_snoc stored_append
            map_of_Map_set split: list.splits)
  qed
qed


lemma run_ops_Cons: "run_ops (op # ops) m = run_ops ops (map_step op m)"
  by (simp add: run_ops_def)

lemma statusCallback_map:
  "domainStatuses (statusCallback v st) = map_step (Report v) (domainStatuses st)"
  by (simp add: statusCallback_def)

lemma run_events_ops:
  "domainStatuses (fst (run_events env es c)) = run_ops (event_ops es) (domainStatuses (fst c))"
  by (induction env es c rule: run_events.induct)
     (simp_all add: run_ops_Cons addLog_domainStatuses statusCallback_map, simp add: run_ops_def)

lemma settle_domainStatuses:
  "domainStatuses (fst (fst (settle env call c))) = domainStatuses (fst c)"
  by (simp add: settle_def inner_catch_def log_error_domainStatuses respond_ok_domainStatuses
        split: sum.splits)

lemma deliver_map:
  "domainStatuses (fst (deliver env k (st2, p))) =
   run_ops (event_ops (take k (p_events p))) (domainStatuses st2)"
  by (simp add: deliver_def Let_def run_events_ops)

lemma complete_map:
  "domainStatuses (fst (complete env (st2, p))) =
   run_ops (event_ops (p_events p)) (domainStatuses st2)"
  by (simp add: complete_def Let_def finish_domainStatuses settle_domainStatuses run_events_ops)

lemma analyze_settle:
  "analyze env d w l c =
   settle env \<lparr>call_domains = d, call_stopWords = w, call_snapshotsLimit = l,
               call_maxConcurrent = 3\<rparr>
     (run_events env
        (fst (engine_run env \<lparr>call_domains = d, call_stopWords = w, call_snapshotsLimit = l,
                call_maxConcurrent = 3\<rparr>))
        ((fst c)\<lparr>calls := calls (fst c) @
           [\<lparr>call_domains = d, call_stopWords = w, call_snapshotsLimit = l,
             call_maxConcurrent = 3\<rparr>]\<rparr>, snd c))"
  by (simp add: analyze_def settle_def Let_def)

lemma suspended_cases:
  assumes "suspended env st req = Some sp"
  obtains words c where "valid_request req"
    "finalStopWords env (getProp (body req) ''stopWords'') = Inr words"
    "started env req st words = (c, None)"
    "sp = ((fst c)\<lparr>calls := calls (fst c) @ [the_call env req words]\<rparr>,
           \<lparr>p_call = the_call env req words, p_logs = snd c,
            p_events = fst (engine_run env (the_call env req words))\<rparr>)"
  using assms
  by (auto simp: suspended_def split: if_splits sum.splits prod.splits option.splits)

lemma suspended_cleared:
  assumes "suspended env st req = Some sp"
  shows "domainStatuses (fst sp) = []"
  using assms
proof (rule suspended_cases)
  fix words c
  assume "started env req st words = (c, None)"
    and "sp = ((fst c)\<lparr>calls := calls (fst c) @ [the_call env req words]\<rparr>,
           \<lparr>p_call = the_call env req words, p_logs = snd c,
            p_events = fst (engine_run env (the_call env req words))\<rparr>)"
  then show ?thesis
    using started_domainStatuses [of env req st words] by simp
qed

lemma handler_suspended:
  assumes "suspended env st req = Some sp"
  shows "handler env st req = complete env sp"
  using assms
proof (rule suspended_cases)
  fix words c
  assume v: "valid_request req"
    and w: "finalStopWords env (getProp (body req) ''stopWords'') = Inr words"
    and s: "started env req st words = (c, None)"
    and sp: "sp = ((fst c)\<lparr>calls := calls (fst c) @ [the_call env req words]\<rparr>,
           \<lparr>p_call = the_call env req words, p_logs = snd c,
            p_events = fst (engine_run env (the_call env req words))\<rparr>)"
  from v w s have "handler env st req =
      finish env (analyze env (getProp (body req) ''domains'') words
        (snapshotsLimit (getProp (body req) ''maxSnapshots'')) c)"
    by (simp add: valid_request_def handler_post try_block_analyze)
  then show ?thesis
    by (simp add: sp complete_def Let_def analyze_settle the_call_def)
qed

lemma run_ops_events: "map_of (run_ops (event_ops es) []) = latest_status es"
proof -
  have "map_of (domainStatuses (fst (run_events env es
          (\<lparr>domainStatuses = [], console = [], clock = 0, calls = []\<rparr>, [])))) = latest_status es"
    for env
    by (rule map_of_run_events) simp
  then show ?thesis by (simp add: run_events_ops)
qed

lemma example_suspended:
  "map_option (\<lambda>sp. p_events (snd sp))
     (suspended example_env example_state (example_request [])) =
   Some (fst (engine_run example_env (example_call (JArr example_words) (JNum 10))))"
  by code_simp

lemma example_overlapped:
  "map_option (\<lambda>r. (status (snd r),
       map_of (domainStatuses (fst r)) (JStr ''clean.example''),
       map_of (domainStatuses (fst r)) (JStr ''other.example'')))
     (overlapped example_env example_state (example_request []) 2 other_request) =
   Some (200, None, Some (example_status (JStr ''other.example'')))"
  by code_simp

lemma example_reported:
  "latest_status (fst (engine_run example_env (example_call (JArr example_words) (JNum 10))))
     (JStr ''clean.example'') = Some (example_status (JStr ''clean.example''))"
  "latest_status (fst (engine_run example_env (example_call (JArr example_words) (JNum 10))))
     (JStr ''other.example'') = None"
  by code_simp+

text \<open>
  Claim C9, as the code has it. The claim has the map hold, during a valid request,
  exactly the latest statuses reported by the status callback. The map is the process's,
  though, and the request is suspended while the analysis runs: here request A, for the
  three example domains, has \<^verbatim>\<open>clean.example\<close> reported, then request B for
  \<^verbatim>\<open>other.example\<close> arrives and clears the map, then A goes on. When A responds
  (with 200) the map has no entry for \<^verbatim>\<open>clean.example\<close>, the latest status of which
  A's callback did report, and it has an entry for \<^verbatim>\<open>other.example\<close>, which A's
  callback never saw.
\<close>

theorem overlapping_requests_counterexample:
  "map_option (\<lambda>sp. p_events (snd sp))
     (suspended example_env example_state (example_request [])) =
   Some (fst (engine_run example_env (example_call (JArr example_words) (JNum 10)))) \<and>
   latest_status (fst (engine_run example_env (example_call (JArr example_words) (JNum 10))))
     (JStr ''clean.example'') = Some (example_status (JStr ''clean.example'')) \<and>
   latest_status (fst (engine_run example_env (example_call (JArr example_words) (JNum 10))))
     (JStr ''other.example'') = None \<and>
   map_option (\<lambda>r. (status (snd r),
       map_of (domainStatuses (fst r)) (JStr ''clean.example''),
       map_of (domainStatuses (fst r)) (JStr ''other.example'')))
     (overlapped example_env example_state (example_request []) 2 other_request) =
   Some (200, None, Some (example_status (JStr ''other.example'')))"
  using example_suspended example_overlapped example_reported by simp

text \<open>
  Claim C9, amended. The map \<^verbatim>\<open>domainStatuses\<close> belongs to the process state that
  all requests share. A request that does not pass the method check, the destructuring of
  its body or the validation of its domains leaves the map as it was; in particular every
  request answered 400 or 405 does. A request that reaches the analysis has cleared the
  map; as long as no other request runs in between, the map then holds, after every
  prefix of the callback invocations and at the response, exactly the latest status that
  the request's status callback was given for each domain. Whatever runs in between, a
  suspended request only stores the statuses of its own callback invocations into the map
  it finds, and the map always holds, for each domain, the latest status stored since the
  last clear by any request.
\<close>

theorem domain_statuses_shared_store:
  assumes "handler env st req = (st', resp)"
  shows "(\<not> valid_request req \<longrightarrow> domainStatuses st' = domainStatuses st) \<and>
         (status resp = 400 \<or> status resp = 405 \<longrightarrow> \<not> valid_request req) \<and>
         (\<forall>sp. suspended env st req = Some sp \<longrightarrow>
            domainStatuses (fst sp) = [] \<and> handler env st req = complete env sp \<and>
            (\<forall>k. map_of (domainStatuses (fst (deliver env k sp))) =
                  latest_status (take k (p_events (snd sp)))) \<and>
            map_of (domainStatuses (fst (complete env sp))) =
              latest_status (p_events (snd sp))) \<and>
         (\<forall>k st2 p. domainStatuses (fst (deliver env k (st2, p))) =
            run_ops (event_ops (take k (p_events p))) (domainStatuses st2)) \<and>
         (\<forall>st2 p. domainStatuses (fst (complete env (st2, p))) =
            run_ops (event_ops (p_events p)) (domainStatuses st2)) \<and>
         (\<forall>ops m. map_of (run_ops ops m) = latest_since_clear m ops)"
proof (intro conjI impI allI)
  assume "\<not> valid_request req"
  with assms show "domainStatuses st' = domainStatuses st" by (rule handler_keeps_store)
next
  assume "status resp = 400 \<or> status resp = 405"
  then show "\<not> valid_request req"
    using handler_status_valid [OF assms] by auto
next
  fix sp assume s: "suspended env st req = Some sp"
  then show "domainStatuses (fst sp) = []" by (rule suspended_cleared)
  from s show "handler env st req = complete env sp" by (rule handler_suspended)
  have c: "domainStatuses (fst sp) = []" using s by (rule suspended_cleared)
  show "map_of (domainStatuses (fst (deliver env k sp))) =
        latest_status (take k (p_events (snd sp)))" for k
    using deliver_map [of env k "fst sp" "snd sp"] c by (simp add: run_ops_events)
  show "map_of (domainStatuses (fst (complete env sp))) = latest_status (p_events (snd sp))"
    using complete_map [of env "fst sp" "snd sp"] c by (simp add: run_ops_events)
next
  fix ops m
  show "map_of (run_ops ops m) = latest_since_clear m ops"
    by (rule ext) (rule map_of_run_ops)
qed (simp_all add: deliver_map complete_map)

theorem domain_statuses_shared_store_witness:
  "\<not> valid_request (post []) \<and>
   status (snd (handler example_env example_state (post []))) = 400 \<and>
   domainStatuses (fst (handler example_env example_state (post []))) =
     domainStatuses example_state \<and>
   suspended example_env example_state (example_request []) \<noteq> None \<and>
   map_of (domainStatuses (fst (handler example_env example_state (example_request []))))
     (JStr ''spammy.example'') = Some (example_status (JStr ''spammy.example'')) \<and>
   latest_status (fst (engine_run example_env (example_call (JArr example_words) (JNum 10))))
     (JStr ''spammy.example'') = Some (example_status (JStr ''spammy.example'')) \<and>
   map_of (domainStatuses (fst (handler example_env example_state (example_request []))))
     (JStr ''old.example'') = None"
proof -
  let ?es = "fst (engine_run example_env (example_call (JArr example_words) (JNum 10)))"
  obtain sp where sp: "suspended example_env example_state (example_request []) = Some sp"
    and ev: "p_events (snd sp) = ?es"
    using example_suspended by auto
  note t = domain_statuses_shared_store
      [where env = example_env and st = example_state and req = "example_request []",
       OF handler_pair]
  from t sp have h: "handler example_env example_state (example_request []) =
      complete example_env sp"
    and m: "map_of (domainStatuses (fst (complete example_env sp))) =
      latest_status (p_events (snd sp))"
    by blast+
  then have "latest_status ?es d =
      map_of (domainStatuses (fst (handler example_env example_state (example_request [])))) d"
    for d using ev by simp
  moreover have "domainStatuses (fst (handler example_env example_state (post []))) =
     domainStatuses example_state"
    using domain_statuses_shared_store
      [where env = example_env and st = example_state and req = "post []", OF handler_pair]
      example_invalid_request
    by blast
  moreover have "status (snd (handler example_env example_state (post []))) = 400"
    by (simp add: handler_invalid post_method post_body invalid_domains_def)
  ultimately show ?thesis
    using sp by (simp add: example_invalid_request example_store_valid)
qed

subsection \<open>The log\<close>

lemma stamped_Nil: "stamped env k []"
  by (simp add: stamped_def)

lemma stamped_snoc:
  "stamped env k logs \<Longrightarrow> ty \<in> set levels \<Longrightarrow>
   stamped env k (logs @ [\<lparr>timestamp = now env (k + length logs), type = ty, message = m\<rparr>])"
  by (auto simp: stamped_def nth_append less_Suc_eq)

lemma in_order_addLog:
  "in_order env k c \<Longrightarrow> ty \<in> set levels \<Longrightarrow> in_order env k (addLog env m ty c)"
  by (simp add: in_order_def addLog_clock addLog_logs stamped_snoc)

lemma error_level: "''error'' \<in> set levels" and info_level: "''info'' \<in> set levels"
  and success_level: "''success'' \<in> set levels"
  by (simp_all add: levels_def)

lemma in_order_log_error: "in_order env k c \<Longrightarrow> in_order env k (log_error env l e c)"
  by (simp add: log_error_def Let_def in_order_addLog error_level split: option.splits)

lemma in_order_status:
  "in_order env k c \<Longrightarrow> in_order env k (statusCallback v (fst c), snd c)"
  by (simp add: in_order_def statusCallback_def)

lemma in_order_run_events: "in_order env k c \<Longrightarrow> in_order env k (run_events env es c)"
  by (induction env es c rule: run_events.induct)
     (simp_all add: in_order_addLog info_level in_order_status)

lemma in_order_log_start:
  "in_order env k c \<Longrightarrow> in_order env k (fst (log_start env d w l c))"
  by (simp add: log_start_def Let_def in_order_addLog info_level split: sum.splits)

lemma in_order_respond_ok:
  "in_order env k c \<Longrightarrow> in_order env k (fst (respond_ok env r c))"
  by (simp add: respond_ok_def inner_catch_def Let_def in_order_addLog success_level
        in_order_log_error split: sum.splits)

lemma in_order_called:
  "in_order env k c \<Longrightarrow> in_order env k ((fst c)\<lparr>calls := cs\<rparr>, snd c)"
  by (simp add: in_order_def)

lemma in_order_analyze:
  "in_order env k c \<Longrightarrow> in_order env k (fst (analyze env d w l c))"
  by (simp add: analyze_def Let_def inner_catch_def in_order_respond_ok in_order_log_error
        in_order_run_events in_order_called split: sum.splits)

lemma in_order_initial: "clock st = k \<Longrightarrow> in_order env k (st, [])"
  by (simp add: in_order_def stamped_Nil)

lemma in_order_started: "in_order env (clock st) (fst (started env req st words))"
  unfolding started_def by (rule in_order_log_start) (simp add: in_order_initial)

lemma response_logs_outer_catch:
  "response_logs (snd (outer_catch env e c)) =
   map log_json (snd (log_error env '' Fatal error: '' e c))"
  by (simp add: outer_catch_def Let_def response_logs_def)

lemma response_logs_respond_ok:
  "respond_ok env r c = (c', Inr resp) \<Longrightarrow> response_logs resp = map log_json (snd c')"
  by (auto simp: respond_ok_def inner_catch_def Let_def response_logs_def split: sum.splits)

lemma response_logs_analyze:
  "analyze env d w l c = (c', Inr resp) \<Longrightarrow> response_logs resp = map log_json (snd c')"
  by (auto simp: analyze_def inner_catch_def Let_def split: sum.splits
           dest: response_logs_respond_ok)

lemma response_logs_thrown:
  assumes "outer_catch env e c = (st', resp)" and "in_order env k c"
  shows "\<exists>entries. response_logs resp = map log_json entries \<and> stamped env k entries"
proof -
  from assms(1) have "response_logs resp = map log_json (snd (log_error env '' Fatal error: '' e c))"
    using response_logs_outer_catch [of env e c] by simp
  moreover from assms(2) have "stamped env k (snd (log_error env '' Fatal error: '' e c))"
    using in_order_log_error [of env k c "'' Fatal error: ''" e] by (simp add: in_order_def)
  ultimately show ?thesis by blast
qed

lemma response_logs_finish:
  assumes "finish env (analyze env d w l c) = (st', resp)" and "in_order env k c"
  shows "\<exists>entries. response_logs resp = map log_json entries \<and> stamped env k entries"
proof -
  obtain c' r where an: "analyze env d w l c = (c', r)" by (cases "analyze env d w l c")
  have ord: "in_order env k c'"
    using in_order_analyze [OF assms(2), of d w l] an by simp
  show ?thesis
  proof (cases r)
    case (Inl e)
    with assms(1) an have "outer_catch env e c' = (st', resp)" by (simp add: finish_throw)
    then show ?thesis using ord by (rule response_logs_thrown)
  next
    case (Inr resp')
    with assms(1) an have "resp' = resp" by (simp add: finish_return)
    with an Inr have "response_logs resp = map log_json (snd c')"
      by (auto dest: response_logs_analyze)
    with ord show ?thesis by (auto simp: in_order_def)
  qed
qed

lemma handler_logs_in_order:
  assumes "handler env st req = (st', resp)"
  shows "\<exists>entries. response_logs resp = map log_json entries \<and> stamped env (clock st) entries"
  using assms
proof (cases rule: handler_cases)
  case not_post
  with assms have "response_logs resp = []"
    by (auto simp: handler_def response_logs_def)
  then show ?thesis by (simp add: stamped_Nil)
next
  case null_body
  from null_body(3) show ?thesis
    by (rule response_logs_thrown) (simp add: in_order_initial)
next
  case invalid
  with assms have "response_logs resp =
      map log_json [\<lparr>timestamp = now env (clock st), type = ''error'',
                     message = ''domains array is required''\<rparr>]"
    by (auto simp: handler_invalid response_logs_def)
  moreover have "stamped env (clock st)
      [\<lparr>timestamp = now env (clock st), type = ''error'',
        message = ''domains array is required''\<rparr>]"
    by (simp add: stamped_def levels_def)
  ultimately show ?thesis by blast
next
  case (words_throw e)
  from words_throw(5) show ?thesis
    by (rule response_logs_thrown) (simp add: in_order_initial)
next
  case (start_throw words c e)
  from start_throw(6) show ?thesis
  proof (rule response_logs_thrown)
    show "in_order env (clock st) c"
      using in_order_started [of env st req words] start_throw(5) by simp
  qed
next
  case (analyzed words c)
  from analyzed(6) show ?thesis
  proof (rule response_logs_finish)
    show "in_order env (clock st) c"
      using in_order_started [of env st req words] analyzed(5) by simp
  qed
qed

lemma prefix_addLog: "prefix (snd c) (snd (addLog env m t c))"
  by (simp add: addLog_logs)

lemma prefix_log_error: "prefix (snd c) (snd (log_error env l e c))"
  by (simp add: log_error_def Let_def addLog_logs split: option.splits)

lemma prefix_log_start: "prefix (snd c) (snd (fst (log_start env d w l c)))"
  by (simp add: log_start_def Let_def addLog_logs split: sum.splits)

lemma prefix_run_events: "prefix (snd c) (snd (run_events env es c))"
proof (induction env es c rule: run_events.induct)
  case (1 env c)
  show ?case by simp
next
  case (2 env msg es c)
  have "prefix (snd c) (snd (addLog env msg ''info'' c))" by (rule prefix_addLog)
  with 2 show ?case by (auto intro: prefix_order.trans)
next
  case (3 env v es c)
  then show ?case by simp
qed

lemma prefix_respond_ok: "prefix (snd c) (snd (fst (respond_ok env r c)))"
  by (simp add: respond_ok_def inner_catch_def Let_def prefix_addLog prefix_log_error
        split: sum.splits)

lemma prefix_analyze: "prefix (snd c) (snd (fst (analyze env d w l c)))"
proof -
  let ?call = "\<lparr>call_domains = d, call_stopWords = w, call_snapshotsLimit = l,
                call_maxConcurrent = 3\<rparr>"
  let ?c1 = "run_events env (fst (engine_run env ?call))
               ((fst c)\<lparr>calls := calls (fst c) @ [?call]\<rparr>, snd c)"
  have 1: "prefix (snd c) (snd ?c1)"
    using prefix_run_events [of "((fst c)\<lparr>calls := calls (fst c) @ [?call]\<rparr>, snd c)" env]
    by simp
  have 2: "prefix (snd ?c1) (snd (fst (analyze env d w l c)))"
    by (simp add: analyze_def Let_def inner_catch_def prefix_respond_ok prefix_log_error
          split: sum.splits)
  from 1 2 show ?thesis by (rule prefix_order.trans)
qed

lemma example_log_stamps:
  "map (\<lambda>e. (getProp e ''timestamp'', getProp e ''type''))
     (response_logs (snd (handler example_env example_state (example_request [])))) =
   [(JStr ''T0'', JStr ''info''), (JStr ''T1'', JStr ''info''), (JStr ''T2'', JStr ''info''),
    (JStr ''T3'', JStr ''info''), (JStr ''T4'', JStr ''info''), (JStr ''T5'', JStr ''info''),
    (JStr ''T6'', JStr ''success'')]"
  by code_simp

text \<open>
  Claim C7. The log only grows at its end: \<^verbatim>\<open>addLog\<close> appends one entry, with the
  time of the call, after the entries already there, and the opening entries, the
  callbacks of the analysis, the analysis step as a whole and the catch blocks leave
  every earlier entry in place. The entries of
  every response are in emission order (the \<open>i\<close>-th entry carries the time of the
  \<open>i\<close>-th clock read of the request), and each is an object with a timestamp, a level
  (the source's field \<^verbatim>\<open>type\<close>) that is one of info, success and error, and a message.
\<close>

theorem log_append_only_in_order:
  "snd (addLog env msg ty c) =
     snd c @ [\<lparr>timestamp = now env (clock (fst c)), type = ty, message = msg\<rparr>] \<and>
   prefix (snd c) (snd (fst (log_start env d w l c))) \<and>
   prefix (snd c) (snd (run_events env es c)) \<and>
   prefix (snd c) (snd (fst (analyze env d w l c))) \<and>
   prefix (snd c) (snd (log_error env label error c)) \<and>
   (handler env st req = (st', resp) \<longrightarrow>
      (\<exists>entries. response_logs resp = map log_json entries \<and>
                 stamped env (clock st) entries) \<and>
      (\<forall>e \<in> set (response_logs resp). \<exists>ts ty m.
          e = JObj [(''timestamp'', JStr ts), (''type'', JStr ty), (''message'', JStr m)] \<and>
          ty \<in> set levels))"
proof (intro conjI impI)
  assume h: "handler env st req = (st', resp)"
  then obtain entries where e: "response_logs resp = map log_json entries"
      "stamped env (clock st) entries"
    using handler_logs_in_order by blast
  then show "\<exists>entries. response_logs resp = map log_json entries \<and>
                 stamped env (clock st) entries" by blast
  show "\<forall>e \<in> set (response_logs resp). \<exists>ts ty m.
          e = JObj [(''timestamp'', JStr ts), (''type'', JStr ty), (''message'', JStr m)] \<and>
          ty \<in> set levels"
  proof
    fix x assume "x \<in> set (response_logs resp)"
    with e(1) obtain i where i: "i < length entries" "x = log_json (entries ! i)"
      by (auto simp: in_set_conv_nth)
    with e(2) have "type (entries ! i) \<in> set levels" by (simp add: stamped_def)
    with i(2) show "\<exists>ts ty m.
          x = JObj [(''timestamp'', JStr ts), (''type'', JStr ty), (''message'', JStr m)] \<and>
          ty \<in> set levels"
      by (auto simp: log_json_def)
  qed
qed (simp_all add: addLog_logs prefix_log_start prefix_run_events prefix_analyze
       prefix_log_error)


theorem log_append_only_in_order_witness:
  "map (\<lambda>e. (getProp e ''timestamp'', getProp e ''type''))
     (response_logs (snd (handler example_env example_state (example_request [])))) =
   [(JStr (now example_env 0), JStr ''info''), (JStr (now example_env 1), JStr ''info''),
    (JStr (now example_env 2), JStr ''info''), (JStr (now example_env 3), JStr ''info''),
    (JStr (now example_env 4), JStr ''info''), (JStr (now example_env 5), JStr ''info''),
    (JStr (now example_env 6), JStr ''success'')] \<and>
   clock example_state = 0"
  using log_append_only_in_order
    [where env = example_env and st = example_state and req = "example_request []"
       and st' = "fst (handler example_env example_state (example_request []))"
       and resp = "snd (handler example_env example_state (example_request []))"]
    example_log_stamps
  by (simp add: example_env_def example_state_def)

subsection \<open>A failing analysis\<close>

lemma handler_analyzed:
  assumes "handler env st req = (st', resp)" and "c \<in> set (new_calls st st')"
  obtains words c0 where "c = the_call env req words" "new_calls st st' = [c]"
    "started env req st words = (c0, None)"
    "finish env (analyze env (call_domains c) (call_stopWords c) (call_snapshotsLimit c) c0) =
       (st', resp)"
  using assms(1)
proof (cases rule: handler_cases)
  case not_post
  with assms show ?thesis by (simp add: handler_def new_calls_def)
next
  case null_body
  then have "calls st' = calls st"
    using outer_catch_calls [of env "typeError env DestructureBody" "(st, [])"] by simp
  with assms(2) show ?thesis by (simp add: new_calls_def)
next
  case invalid
  with assms show ?thesis by (auto simp: handler_invalid new_calls_def)
next
  case (words_throw e)
  then have "calls st' = calls st"
    using outer_catch_calls [of env e "(st\<lparr>domainStatuses := []\<rparr>, [])"] by simp
  with assms(2) show ?thesis by (simp add: new_calls_def)
next
  case (start_throw words c0 e)
  then have "calls st' = calls st"
    using outer_catch_calls [of env e c0] started_calls [of env req st words] by simp
  with assms(2) show ?thesis by (simp add: new_calls_def)
next
  case (analyzed words c0)
  let ?d = "getProp (body req) ''domains''"
  let ?l = "snapshotsLimit (getProp (body req) ''maxSnapshots'')"
  from analyzed(6) have "calls st' = calls (fst (fst (analyze env ?d words ?l c0)))"
    using finish_calls [of env "analyze env ?d words ?l c0"] by simp
  then have "calls st' = calls st @ [the_call env req words]"
    using started_calls [of env req st words] analyzed(5)
    by (simp add: analyze_calls the_call_def)
  with assms(2) have c: "c = the_call env req words" "new_calls st st' = [c]"
    by (simp_all add: new_calls_def)
  show ?thesis
  proof (rule that [OF c analyzed(5)])
    show "finish env (analyze env (call_domains c) (call_stopWords c) (call_snapshotsLimit c) c0) =
       (st', resp)"
      using analyzed(6) c(1) by (simp add: the_call_def)
  qed
qed

lemma messages_addLog: "map message (snd (addLog env m t c)) = map message (snd c) @ [m]"
  by (simp add: addLog_logs)

lemma messages_run_events:
  "map message (snd (run_events env es c)) = map message (snd c) @ engine_messages es"
  by (induction env es c rule: run_events.induct) (simp_all add: messages_addLog)

lemma messages_log_error:
  "map message (snd (log_error env l e c)) =
   map message (snd c) @ [cross_mark @ l @ err_message e]
     @ (if stack_truthy e then [''Stack: '' @ the_stack e] else [])"
  by (simp add: log_error_def Let_def messages_addLog stack_truthy_def the_stack_def
        split: option.splits)

lemma log_start_length: "log_start env d w l c = (c', None) \<Longrightarrow> length (snd c') = length (snd c) + 3"
  by (auto simp: log_start_def Let_def addLog_logs split: sum.splits if_splits)

lemma started_length: "started env req st words = (c, None) \<Longrightarrow> length (snd c) = 3"
  by (auto simp: started_def dest: log_start_length)

lemma analyze_rejected:
  assumes "snd (engine_run env \<lparr>call_domains = d, call_stopWords = w, call_snapshotsLimit = l,
                call_maxConcurrent = 3\<rparr>) = Inl e"
  shows "analyze env d w l c =
    (log_error env '' Error: '' e
       (run_events env
          (fst (engine_run env \<lparr>call_domains = d, call_stopWords = w,
                  call_snapshotsLimit = l, call_maxConcurrent = 3\<rparr>))
          ((fst c)\<lparr>calls := calls (fst c) @
             [\<lparr>call_domains = d, call_stopWords = w, call_snapshotsLimit = l,
               call_maxConcurrent = 3\<rparr>]\<rparr>, snd c)),
     Inl e)"
  using assms by (simp add: analyze_def Let_def inner_catch_def)

lemma outer_catch_json:
  "json (snd (outer_catch env e c)) =
   JObj [(''error'', JStr ''Spam analysis failed''),
         (''message'', JStr (err_message e)),
         (''details'', JStr (if stack_truthy e then the_stack e else error_toString e)),
         (''logs'', JArr (map log_json (snd (log_error env '' Fatal error: '' e c))))]"
  by (simp add: outer_catch_def Let_def)

lemma failing_calls:
  "calls (fst (handler failing_env example_state (example_request []))) =
   [example_call (JArr example_words) (JNum 10)]"
  by code_simp

lemma failing_run:
  "engine_run failing_env c = ([EvLog ''Fetching''], Inl example_error)"
  by (simp add: engine_run_def failing_env_def)

lemma failing_response:
  "status (snd (handler failing_env example_state (example_request []))) = 500 \<and>
   getProp (json (snd (handler failing_env example_state (example_request [])))) ''message'' =
     JStr ''archive unreachable'' \<and>
   map (\<lambda>e. getProp e ''message'')
     (response_logs (snd (handler failing_env example_state (example_request [])))) =
     [JStr ''Starting spam analysis for 3 domain(s)'', JStr ''Using 2 stop words'',
      JStr ''Max snapshots per domain: 10'', JStr ''Fetching'',
      JStr (cross_mark @ '' Error: archive unreachable''),
      JStr ''Stack: Error: archive unreachable at fetch'',
      JStr (cross_mark @ '' Fatal error: archive unreachable''),
      JStr ''Stack: Error: archive unreachable at fetch'']"
  by code_simp

text \<open>
  Claim C3. When the analysis called by the handler rejects with an error, the handler
  answers 500: the response carries the error \<^verbatim>\<open>Spam analysis failed\<close>, the message
  of the error thrown and the log accumulated so far (the three opening entries, what the
  analysis logged before it failed, and the entries of the two catch blocks), and it has
  no \<^verbatim>\<open>success\<close>, no \<^verbatim>\<open>results\<close> and no \<^verbatim>\<open>summary\<close>.
\<close>

theorem analysis_failure_propagated:
  assumes "handler env st req = (st', resp)" and "c \<in> set (new_calls st st')"
      and "snd (engine_run env c) = Inl error"
  shows "status resp = 500 \<and>
         getProp (json resp) ''error'' = JStr ''Spam analysis failed'' \<and>
         getProp (json resp) ''message'' = JStr (err_message error) \<and>
         getProp (json resp) ''success'' = JUndefined \<and>
         getProp (json resp) ''results'' = JUndefined \<and>
         getProp (json resp) ''summary'' = JUndefined \<and>
         (\<exists>opening entries. length opening = 3 \<and>
            response_logs resp = map log_json entries \<and>
            map message entries =
              opening @ engine_messages (fst (engine_run env c)) @ error_messages error)"
proof -
  from assms(1,2) obtain words c0 where c: "c = the_call env req words"
    and s: "started env req st words = (c0, None)"
    and f: "finish env (analyze env (call_domains c) (call_stopWords c)
              (call_snapshotsLimit c) c0) = (st', resp)"
    by (rule handler_analyzed)
  let ?c1 = "run_events env (fst (engine_run env c))
               ((fst c0)\<lparr>calls := calls (fst c0) @ [c]\<rparr>, snd c0)"
  let ?c2 = "log_error env '' Error: '' error ?c1"
  have cc: "\<lparr>call_domains = call_domains c, call_stopWords = call_stopWords c,
             call_snapshotsLimit = call_snapshotsLimit c, call_maxConcurrent = 3\<rparr> = c"
    using c by (simp add: the_call_def)
  have "analyze env (call_domains c) (call_stopWords c) (call_snapshotsLimit c) c0 =
        (?c2, Inl error)"
    using analyze_rejected [of env "call_domains c" "call_stopWords c" "call_snapshotsLimit c"
            error c0] assms(3) by (simp add: cc)
  with f have o: "outer_catch env error ?c2 = (st', resp)" by (simp add: finish_throw)
  then have j: "json resp =
     JObj [(''error'', JStr ''Spam analysis failed''),
           (''message'', JStr (err_message error)),
           (''details'', JStr (if stack_truthy error then the_stack error
                               else error_toString error)),
           (''logs'', JArr (map log_json (snd (log_error env '' Fatal error: '' error ?c2))))]"
    using outer_catch_json [of env error ?c2] by simp
  have st: "status resp = 500" using o outer_catch_status [of env error ?c2] by simp
  let ?entries = "snd (log_error env '' Fatal error: '' error ?c2)"
  have m: "map message ?entries =
        map message (snd c0) @ engine_messages (fst (engine_run env c)) @ error_messages error"
    by (simp add: messages_log_error messages_run_events error_messages_def)
  have "length (map message (snd c0)) = 3" using s by (simp add: started_length)
  moreover have "response_logs resp = map log_json ?entries"
    by (simp add: j response_logs_def)
  ultimately have "\<exists>opening entries. length opening = 3 \<and>
            response_logs resp = map log_json entries \<and>
            map message entries =
              opening @ engine_messages (fst (engine_run env c)) @ error_messages error"
    using m by blast
  with st j show ?thesis by simp
qed

theorem analysis_failure_propagated_witness:
  "example_call (JArr example_words) (JNum 10) \<in>
     set (new_calls example_state (fst (handler failing_env example_state (example_request [])))) \<and>
   snd (engine_run failing_env (example_call (JArr example_words) (JNum 10))) = Inl example_error \<and>
   status (snd (handler failing_env example_state (example_request []))) = 500 \<and>
   getProp (json (snd (handler failing_env example_state (example_request [])))) ''message'' =
     JStr (err_message example_error) \<and>
   getProp (json (snd (handler failing_env example_state (example_request [])))) ''results'' =
     JUndefined \<and>
   getProp (json (snd (handler failing_env example_state (example_request [])))) ''summary'' =
     JUndefined \<and>
   map (\<lambda>e. getProp e ''message'')
     (response_logs (snd (handler failing_env example_state (example_request [])))) =
     map JStr
       ([''Starting spam analysis for 3 domain(s)'', ''Using 2 stop words'',
         ''Max snapshots per domain: 10'']
        @ engine_messages [EvLog ''Fetching''] @ error_messages example_error)"
  using analysis_failure_propagated
    [where env = failing_env and st = example_state and req = "example_request []"
       and c = "example_call (JArr example_words) (JNum 10)" and error = example_error,
     OF handler_pair]
    failing_response
  by (simp add: new_calls_example failing_calls failing_run error_messages_def
        stack_truthy_def the_stack_def example_error_def)

subsection \<open>The summary\<close>

lemma counted_Nil: "counted [] = 0"
  by (simp add: counted_def count_status_def)

lemma counted_Cons:
  "counted (r # rs) =
   (if getProp r ''status'' \<in> set (map JStr
         [''CLEAN'', ''SUSPICIOUS'', ''SPAM'', ''UNAVAILABLE'', ''NO_SNAPSHOTS''])
    then 1 else 0) + counted rs"
  by (simp add: counted_def count_status_def)

lemma counted_le: "counted rs \<le> int (length rs)"
  by (induction rs) (simp_all add: counted_Nil counted_Cons)

lemma counted_terminal: "list_all terminal_status rs \<Longrightarrow> counted rs = int (length rs)"
  by (induction rs) (simp_all add: counted_Nil counted_Cons terminal_status_def)

lemma count_status_nonneg: "0 \<le> count_status s rs"
  by (simp add: count_status_def)

lemma valid_domains_array: "\<not> invalid_domains d \<Longrightarrow> \<exists>ds. d = JArr ds \<and> ds \<noteq> []"
  by (cases d) (simp_all add: invalid_domains_def)

lemma respond_ok_json:
  assumes "respond_ok env results c = (c', Inr resp)"
  shows "\<exists>rs. results = JArr rs \<and>
           json resp = JObj
             [(''success'', JBool True), (''results'', JArr rs),
              (''summary'', JObj
                 [(''total'', JNum (int (length rs))),
                  (''clean'', JNum (count_status ''CLEAN'' rs)),
                  (''suspicious'', JNum (count_status ''SUSPICIOUS'' rs)),
                  (''spam'', JNum (count_status ''SPAM'' rs)),
                  (''unavailable'', JNum (count_status ''UNAVAILABLE'' rs)),
                  (''no_snapshots'', JNum (count_status ''NO_SNAPSHOTS'' rs))]),
              (''logs'', JArr (map log_json (snd c')))]"
  using assms
  by (cases results)
     (auto simp: respond_ok_def calc_summary_def inner_catch_def summary_json_def Let_def
           split: if_splits)

lemma analyze_json:
  assumes "analyze env d w l c = (c', Inr resp)"
  shows "\<exists>rs. snd (engine_run env \<lparr>call_domains = d, call_stopWords = w,
                    call_snapshotsLimit = l, call_maxConcurrent = 3\<rparr>) = Inr (JArr rs) \<and>
           json resp = JObj
             [(''success'', JBool True), (''results'', JArr rs),
              (''summary'', JObj
                 [(''total'', JNum (int (length rs))),
                  (''clean'', JNum (count_status ''CLEAN'' rs)),
                  (''suspicious'', JNum (count_status ''SUSPICIOUS'' rs)),
                  (''spam'', JNum (count_status ''SPAM'' rs)),
                  (''unavailable'', JNum (count_status ''UNAVAILABLE'' rs)),
                  (''no_snapshots'', JNum (count_status ''NO_SNAPSHOTS'' rs))]),
              (''logs'', JArr (map log_json (snd c')))]"
proof (cases "snd (engine_run env \<lparr>call_domains = d, call_stopWords = w,
                    call_snapshotsLimit = l, call_maxConcurrent = 3\<rparr>)")
  case (Inl e)
  with assms show ?thesis by (simp add: analyze_def Let_def inner_catch_def)
next
  case (Inr results)
  with assms have "respond_ok env results
     (run_events env (fst (engine_run env \<lparr>call_domains = d, call_stopWords = w,
                    call_snapshotsLimit = l, call_maxConcurrent = 3\<rparr>))
        ((fst c)\<lparr>calls := calls (fst c) @ [\<lparr>call_domains = d, call_stopWords = w,
                    call_snapshotsLimit = l, call_maxConcurrent = 3\<rparr>]\<rparr>, snd c)) = (c', Inr resp)"
    by (simp add: analyze_def Let_def)
  from respond_ok_json [OF this] Inr show ?thesis by auto
qed

lemma handler_ok:
  assumes "handler env st req = (st', resp)" and "status resp = 200"
  obtains words c0 c' where "valid_request req"
    "new_calls st st' = [the_call env req words]"
    "analyze env (getProp (body req) ''domains'') words
       (snapshotsLimit (getProp (body req) ''maxSnapshots'')) c0 = (c', Inr resp)"
  using assms(1)
proof (cases rule: handler_cases)
  case not_post
  with assms show ?thesis by (auto simp: handler_def)
next
  case null_body
  with assms(2) show ?thesis
    using outer_catch_status [of env "typeError env DestructureBody" "(st, [])"] by simp
next
  case invalid
  with assms show ?thesis by (auto simp: handler_invalid)
next
  case (words_throw e)
  with assms(2) show ?thesis
    using outer_catch_status [of env e "(st\<lparr>domainStatuses := []\<rparr>, [])"] by simp
next
  case (start_throw words c e)
  with assms(2) show ?thesis using outer_catch_status [of env e c] by simp
next
  case (analyzed words c0)
  let ?d = "getProp (body req) ''domains''"
  let ?l = "snapshotsLimit (getProp (body req) ''maxSnapshots'')"
  obtain c' r where an: "analyze env ?d words ?l c0 = (c', r)"
    by (cases "analyze env ?d words ?l c0")
  have r: "r = Inr resp"
  proof (cases r)
    case (Inl e)
    with analyzed(6) an assms(2) show ?thesis
      using outer_catch_status [of env e c'] by (simp add: finish_throw)
  next
    case (Inr resp')
    with analyzed(6) an show ?thesis by (simp add: finish_return)
  qed
  from analyzed(6) have "calls st' = calls (fst (fst (analyze env ?d words ?l c0)))"
    using finish_calls [of env "analyze env ?d words ?l c0"] by simp
  then have "calls st' = calls st @ [the_call env req words]"
    using started_calls [of env req st words] analyzed(5)
    by (simp add: analyze_calls the_call_def)
  then have n: "new_calls st st' = [the_call env req words]"
    by (simp add: new_calls_def)
  have v: "valid_request req" using analyzed(1-3) by (simp add: valid_request_def)
  from v n an r show ?thesis by (auto intro: that)
qed

lemma example_summary:
  "status (snd (handler example_env example_state (example_request []))) = 200 \<and>
   getProp (json (snd (handler example_env example_state (example_request [])))) ''results'' =
     JArr (map example_status
       [JStr ''clean.example'', JStr ''spammy.example'', JStr ''dead.example'']) \<and>
   getProp (json (snd (handler example_env example_state (example_request [])))) ''summary'' =
     JObj [(''total'', JNum 3), (''clean'', JNum 1), (''suspicious'', JNum 0),
           (''spam'', JNum 1), (''unavailable'', JNum 1), (''no_snapshots'', JNum 0)]"
  by code_simp

lemma example_contract:
  "BatchResult example_domains
     (JArr (map example_status
        [JStr ''clean.example'', JStr ''spammy.example'', JStr ''dead.example'']))"
  by (simp add: BatchResult_def example_domains_def terminal_status_def example_status_def)

text \<open>
  Claim C1. In every response 200 the summary is an object with the total and the five
  counts clean, suspicious, spam, unavailable and no_snapshots. The total is the number
  of results that the analysis resolved to, each count is the number of results with
  that status and so is not negative, and the five counts together do not exceed the
  total. When the results meet the contract of the analysis given by the spec (one
  result per input domain, each with one of the five statuses), the five counts sum to
  the total, and the total is the number of input domains.
\<close>

theorem summary_counts:
  assumes "handler env st req = (st', resp)" and "status resp = 200"
  shows "\<exists>ds rs c t cl su sp un ns.
           getProp (body req) ''domains'' = JArr ds \<and>
           new_calls st st' = [c] \<and> snd (engine_run env c) = Inr (JArr rs) \<and>
           getProp (json resp) ''results'' = JArr rs \<and>
           getProp (json resp) ''summary'' =
             JObj [(''total'', JNum t), (''clean'', JNum cl), (''suspicious'', JNum su),
                   (''spam'', JNum sp), (''unavailable'', JNum un),
                   (''no_snapshots'', JNum ns)] \<and>
           t = int (length rs) \<and>
           cl = count_status ''CLEAN'' rs \<and> su = count_status ''SUSPICIOUS'' rs \<and>
           sp = count_status ''SPAM'' rs \<and> un = count_status ''UNAVAILABLE'' rs \<and>
           ns = count_status ''NO_SNAPSHOTS'' rs \<and>
           0 \<le> cl \<and> 0 \<le> su \<and> 0 \<le> sp \<and> 0 \<le> un \<and> 0 \<le> ns \<and>
           cl + su + sp + un + ns \<le> t \<and>
           (BatchResult (JArr ds) (JArr rs) \<longrightarrow>
              cl + su + sp + un + ns = t \<and> t = int (length ds))"
proof -
  from assms obtain words c0 c' where v: "valid_request req"
    and n: "new_calls st st' = [the_call env req words]"
    and an: "analyze env (getProp (body req) ''domains'') words
       (snapshotsLimit (getProp (body req) ''maxSnapshots'')) c0 = (c', Inr resp)"
    by (rule handler_ok)
  from v obtain ds where ds: "getProp (body req) ''domains'' = JArr ds"
    using valid_domains_array by (auto simp: valid_request_def)
  from analyze_json [OF an] obtain rs where
    run: "snd (engine_run env (the_call env req words)) = Inr (JArr rs)" and
    j: "json resp = JObj
             [(''success'', JBool True), (''results'', JArr rs),
              (''summary'', JObj
                 [(''total'', JNum (int (length rs))),
                  (''clean'', JNum (count_status ''CLEAN'' rs)),
                  (''suspicious'', JNum (count_status ''SUSPICIOUS'' rs)),
                  (''spam'', JNum (count_status ''SPAM'' rs)),
                  (''unavailable'', JNum (count_status ''UNAVAILABLE'' rs)),
                  (''no_snapshots'', JNum (count_status ''NO_SNAPSHOTS'' rs))]),
              (''logs'', JArr (map log_json (snd c')))]"
    by (auto simp: the_call_def)
  have le: "count_status ''CLEAN'' rs + count_status ''SUSPICIOUS'' rs + count_status ''SPAM'' rs
       + count_status ''UNAVAILABLE'' rs + count_status ''NO_SNAPSHOTS'' rs \<le> int (length rs)"
    using counted_le [of rs] by (simp add: counted_def)
  have eq: "BatchResult (JArr ds) (JArr rs) \<longrightarrow>
      count_status ''CLEAN'' rs + count_status ''SUSPICIOUS'' rs + count_status ''SPAM'' rs
       + count_status ''UNAVAILABLE'' rs + count_status ''NO_SNAPSHOTS'' rs = int (length rs) \<and>
      int (length rs) = int (length ds)"
    using counted_terminal [of rs] by (simp add: BatchResult_def counted_def)
  from ds n run j le eq show ?thesis
    by (simp add: count_status_nonneg)
qed

theorem summary_counts_witness:
  "status (snd (handler example_env example_state (example_request []))) = 200 \<and>
   BatchResult (getProp (body (example_request [])) ''domains'')
     (getProp (json (snd (handler example_env example_state (example_request [])))) ''results'') \<and>
   getProp (json (snd (handler example_env example_state (example_request [])))) ''summary'' =
     JObj [(''total'', JNum 3), (''clean'', JNum 1), (''suspicious'', JNum 0),
           (''spam'', JNum 1), (''unavailable'', JNum 1), (''no_snapshots'', JNum 0)] \<and>
   (1 :: int) + 0 + 1 + 1 + 0 = 3"
  using summary_counts
    [where env = example_env and st = example_state and req = "example_request []",
     OF handler_pair] example_summary example_contract
  by (simp add: example_request_maxSnapshots)

subsection \<open>The stop words that reach the analysis\<close>











end
